theory Spec2Isabelle
  imports Main
begin

chapter \<open>Model\<close>

section \<open>JavaScript values shared by the client and the server script\<close>

text \<open>
  A value thrown by JavaScript code: an \<open>Error\<close> object with its name and message, or
  anything else. The client tests \<open>err instanceof Error\<close> and reads \<open>err.message\<close>; the
  server script formats \<open>error.toString()\<close>.
\<close>

datatype thrown = ErrorObj string string | OtherThrown

definition newError :: "string \<Rightarrow> thrown" where
  "newError m = ErrorObj ''Error'' m"

definition TypeError :: "string \<Rightarrow> thrown" where
  "TypeError m = ErrorObj ''TypeError'' m"

fun error_toString :: "thrown \<Rightarrow> string" where
  "error_toString (ErrorObj name m) = name @ '': '' @ m"
| "error_toString OtherThrown = ''[object Object]''"

text \<open>Decimal rendering of a number inside a template literal (integers only).\<close>

definition digit_char :: "nat \<Rightarrow> char" where
  "digit_char d = ''0123456789'' ! d"

fun string_of_nat :: "nat \<Rightarrow> string" where
  "string_of_nat n =
     (if n < 10 then [digit_char n] else string_of_nat (n div 10) @ [digit_char (n mod 10)])"

declare string_of_nat.simps [simp del]

definition string_of_int :: "int \<Rightarrow> string" where
  "string_of_int i = (if i < 0 then CHR ''-'' # string_of_nat (nat (- i)) else string_of_nat (nat i))"

text \<open>
  JavaScript values as far as the program inspects them. Numbers are integers here; a
  \<open>Date\<close> is never inspected by the code and is passed around as whatever value the
  caller supplies for \<open>new Date()\<close>. Strings are lists of 8-bit characters, a character
  being the code unit of that value (code units above 255 are outside the model).
\<close>

datatype jsval = JUndefined | JNull | JBool bool | JNum int | JStr string

text \<open>\<open>String(v)\<close>, also the conversion of a value used as a property key or in a template.\<close>

fun js_string :: "jsval \<Rightarrow> string" where
  "js_string JUndefined = ''undefined''"
| "js_string JNull = ''null''"
| "js_string (JBool b) = (if b then ''true'' else ''false'')"
| "js_string (JNum n) = string_of_int n"
| "js_string (JStr s) = s"

text \<open>Truthiness, as tested by \<open>!v\<close>, \<open>v || d\<close> and \<open>if (v)\<close>.\<close>

fun truthy :: "jsval \<Rightarrow> bool" where
  "truthy JUndefined = False"
| "truthy JNull = False"
| "truthy (JBool b) = b"
| "truthy (JNum n) = (n \<noteq> 0)"
| "truthy (JStr s) = (s \<noteq> [])"

text \<open>
  An object is a finite map from the names of its own properties to their values.
  \<open>getProp\<close> is the property read \<open>o[k]\<close> (\<open>undefined\<close> when absent); an array read out of
  range is \<open>undefined\<close> too. \<open>hasOwn ob k\<close>: the object has an own property \<open>k\<close>.
\<close>

type_synonym obj = "string \<rightharpoonup> jsval"

definition getProp :: "obj \<Rightarrow> string \<Rightarrow> jsval" where
  "getProp ob k = (case ob k of None \<Rightarrow> JUndefined | Some v \<Rightarrow> v)"

definition hasOwn :: "obj \<Rightarrow> string \<Rightarrow> bool" where
  "hasOwn ob k = (ob k \<noteq> None)"

text \<open>
  The method call \<open>payload.hasOwnProperty(k)\<close>. The method is inherited from the
  prototype unless the object has an own property named \<open>hasOwnProperty\<close>; in a payload,
  which comes from \<open>JSON.parse\<close>, such a property is no function and the call throws.
\<close>

definition hasOwnProperty :: "obj \<Rightarrow> string \<Rightarrow> thrown + bool" where
  "hasOwnProperty ob k =
     (if hasOwn ob ''hasOwnProperty'' then Inl (TypeError ''payload.hasOwnProperty is not a function'')
      else Inr (hasOwn ob k))"

text \<open>\<open>xs.map(f)\<close> with a callback that can throw: the first throw ends the map.\<close>

fun map_or_throw :: "('a \<Rightarrow> thrown + 'b) \<Rightarrow> 'a list \<Rightarrow> thrown + 'b list" where
  "map_or_throw f [] = Inr []"
| "map_or_throw f (x # xs) =
     (case f x of
        Inl err \<Rightarrow> Inl err
      | Inr y \<Rightarrow> (case map_or_throw f xs of Inl err \<Rightarrow> Inl err | Inr ys \<Rightarrow> Inr (y # ys)))"

definition elemAt :: "jsval list \<Rightarrow> nat \<Rightarrow> jsval" where
  "elemAt xs i = (if i < length xs then xs ! i else JUndefined)"

text \<open>
  The characters of the regular expression class for white space among the code units
  up to 255: tab, line feed, vertical tab, form feed, carriage return, space and the
  no-break space (160); \<open>trim()\<close> removes them from both ends.
\<close>

definition is_space :: "char \<Rightarrow> bool" where
  "is_space c = (of_char c \<in> {9, 10, 11, 12, 13, 32, 160 :: nat})"

definition trim :: "string \<Rightarrow> string" where
  "trim s = rev (dropWhile is_space (rev (dropWhile is_space s)))"

section \<open>Sync Coordinator: \<open>withSyncStatus\<close> of \<open>components/Dashboard.tsx\<close>\<close>

text \<open>
  \<open>interface SyncState { pending: number; status: 'idle' | 'syncing' | 'success' | 'error';
  message: string }\<close>, initially \<open>{ pending: 0, status: 'idle', message: '' }\<close>.
\<close>

datatype sync_status = Idle | Syncing | Success | Error

record SyncState =
  pending :: int
  status :: sync_status
  message :: string

definition initialSyncState :: SyncState where
  "initialSyncState = \<lparr>pending = 0, status = Idle, message = ''''\<rparr>"

text \<open>
  The template literal \<open>`Saving ${n} change${n > 1 ? 's' : ''}...`\<close> that both the first
  and the second \<open>setSyncState\<close> updater build.
\<close>

definition saving_message :: "int \<Rightarrow> string" where
  "saving_message n =
     ''Saving '' @ string_of_int n @ '' change'' @ (if n > 1 then ''s'' else '''') @ ''...''"

text \<open>
  The three functional updaters handed to \<open>setSyncState\<close>. React applies each to the
  state current at that moment (\<open>prev\<close>), so each is one atomic step of the
  single-threaded client.
\<close>

definition sync_begin :: "SyncState \<Rightarrow> SyncState" where
  "sync_begin prev =
     \<lparr>pending = pending prev + 1, status = Syncing,
      message = saving_message (pending prev + 1)\<rparr>"

definition sync_resolved :: "SyncState \<Rightarrow> SyncState" where
  "sync_resolved prev =
     (let newPending = pending prev - 1 in
      if newPending = 0 then \<lparr>pending = 0, status = Success, message = ''All changes saved.''\<rparr>
      else \<lparr>pending = newPending, status = Syncing, message = saving_message newPending\<rparr>)"

definition errorMessage :: "thrown \<Rightarrow> string" where
  "errorMessage err = (case err of ErrorObj name m \<Rightarrow> m | OtherThrown \<Rightarrow> ''Update failed.'')"

definition sync_rejected :: "thrown \<Rightarrow> SyncState \<Rightarrow> SyncState" where
  "sync_rejected err prev =
     \<lparr>pending = pending prev - 1, status = Error, message = errorMessage err\<rparr>"

text \<open>
  The fourth writer of the sync state is the timer of the \<open>useEffect\<close> on the status
  (lines 119 to 129): 4000 ms after the status became success or error, unless a call
  began or the status changed meanwhile, it runs
  \<open>setSyncState(prev => ({ ...prev, status: 'idle', message: '' }))\<close>.
\<close>

definition sync_expired :: "SyncState \<Rightarrow> SyncState" where
  "sync_expired prev = prev\<lparr>status := Idle, message := ''''\<rparr>"

text \<open>
  The Dashboard state a view works on: the displayed collection of the view (one of
  \<open>csHubRecords\<close>, \<open>accounts\<close>, \<open>tasks\<close>, \<open>contacts\<close>, \<open>financingRecords\<close>), the
  sync state, and the load error that the second Dashboard variant keeps.
\<close>

record 'r client =
  records :: "'r list"
  syncState :: SyncState
  loadError :: "string option"

text \<open>
  An asynchronous client function: it runs from a state, settles with a rejection
  (\<open>Inl\<close>) or a value (\<open>Inr\<close>), and leaves a state. Whatever happens while the function
  is suspended at an \<open>await\<close> is part of the state it leaves.
\<close>

type_synonym ('r, 'a) async = "'r client \<Rightarrow> (thrown + 'a) \<times> 'r client"

text \<open>
  \<open>withSyncStatus(action)\<close>: begin, await the action, then the updater of the \<open>try\<close>
  body or of the \<open>catch\<close> block, which re-throws.
\<close>

definition withSyncStatus :: "('r, 'a) async \<Rightarrow> ('r, unit) async" where
  "withSyncStatus action c =
     (let c1 = c\<lparr>syncState := sync_begin (syncState c)\<rparr> in
      case action c1 of
        (Inr v, c2) \<Rightarrow> (Inr (), c2\<lparr>syncState := sync_resolved (syncState c2)\<rparr>)
      | (Inl err, c2) \<Rightarrow> (Inl err, c2\<lparr>syncState := sync_rejected err (syncState c2)\<rparr>))"

text \<open>\<open>await a; await b\<close> inside an async function: a rejection of \<open>a\<close> skips \<open>b\<close>.\<close>

definition then_await :: "('r, 'a) async \<Rightarrow> ('r, 'b) async \<Rightarrow> ('r, 'b) async" where
  "then_await a b c = (case a c of (Inl err, c1) \<Rightarrow> (Inl err, c1) | (Inr v, c1) \<Rightarrow> b c1)"

text \<open>
  Concurrent calls of \<open>withSyncStatus\<close> share only the sync state, and each call touches
  it twice: when it starts and when its action settles. A run of several calls is
  therefore a sequence of these events in the order the scheduler executes them, with
  the timer firing in between (\<open>Expire\<close>; the model lets it fire at any time).
\<close>

datatype sync_event = Begin | Resolve | Reject thrown | Expire

fun sync_step :: "SyncState \<Rightarrow> sync_event \<Rightarrow> SyncState" where
  "sync_step s Begin = sync_begin s"
| "sync_step s Resolve = sync_resolved s"
| "sync_step s (Reject err) = sync_rejected err s"
| "sync_step s Expire = sync_expired s"

definition run_events :: "sync_event list \<Rightarrow> SyncState \<Rightarrow> SyncState" where
  "run_events evs s = foldl sync_step s evs"

text \<open>
  A schedule is complete from \<open>k\<close> calls in flight when no call settles before it began
  and every call that began has settled at the end.
\<close>

fun complete_from :: "nat \<Rightarrow> sync_event list \<Rightarrow> bool" where
  "complete_from k [] = (k = 0)"
| "complete_from k (Begin # evs) = complete_from (Suc k) evs"
| "complete_from k (Resolve # evs) = (0 < k \<and> complete_from (k - 1) evs)"
| "complete_from k (Reject err # evs) = (0 < k \<and> complete_from (k - 1) evs)"
| "complete_from k (Expire # evs) = complete_from k evs"

fun is_reject :: "sync_event \<Rightarrow> bool" where
  "is_reject (Reject err) = True"
| "is_reject ev = False"

definition calls :: "sync_event list \<Rightarrow> nat" where
  "calls evs = length (filter (\<lambda>ev. ev = Begin) evs)"

definition rejections :: "sync_event list \<Rightarrow> nat" where
  "rejections evs = length (filter is_reject evs)"

section \<open>Optimistic State Manager: the handlers of the five views\<close>

text \<open>
  The refetch function the Dashboard hands to a view as \<open>refetchData\<close>. The Dashboard
  that loads each view on demand (\<open>Dashboard.tsx\<close>, lines 59 to 77) defines every
  \<open>fetch...Data\<close> as \<open>setX(await api.getX())\<close>: a failed read rejects. \<open>api_get\<close> is the
  network read.
\<close>

definition fetchData :: "('r, 'r list) async \<Rightarrow> ('r, unit) async" where
  "fetchData api_get c =
     (case api_get c of
        (Inl err, c1) \<Rightarrow> (Inl err, c1)
      | (Inr xs, c1) \<Rightarrow> (Inr (), c1\<lparr>records := xs\<rparr>))"

text \<open>
  The Dashboard that loads all views at once (\<open>Dashboard.tsx\<close>, lines 327 to 365) wraps
  the same statement in \<open>try\<close>/\<open>catch\<close> and records the failure with \<open>setError\<close>: the
  refetch function never rejects.
\<close>

definition fetchData_caught :: "string \<Rightarrow> ('r, 'r list) async \<Rightarrow> ('r, unit) async" where
  "fetchData_caught label api_get c =
     (case api_get c of
        (Inl err, c1) \<Rightarrow>
          (Inr (), c1\<lparr>loadError := Some (''Failed to load '' @ label @ '' data: '' @
             (case err of ErrorObj name m \<Rightarrow> m | OtherThrown \<Rightarrow> ''Unknown error''))\<rparr>)
      | (Inr xs, c1) \<Rightarrow> (Inr (), c1\<lparr>records := xs\<rparr>))"

text \<open>
  The tail every mutating handler ends with:
  \<open>try { await withSyncStatus(action); } catch (err) { setX(original); }\<close>.
\<close>

definition revertOnFailure :: "'r list \<Rightarrow> ('r, unit) async \<Rightarrow> 'r client \<Rightarrow> 'r client" where
  "revertOnFailure original action c =
     (case withSyncStatus action c of
        (Inr v, c1) \<Rightarrow> c1
      | (Inl err, c1) \<Rightarrow> c1\<lparr>records := original\<rparr>)"

text \<open>
  \<open>setX(prev => prev.map(r => r[idKey] === updated[idKey] ? updated : r))\<close> and
  \<open>setX(prev => prev.filter(r => r[idKey] !== id))\<close>, applied to the current state.
\<close>

definition replaceById :: "string \<Rightarrow> jsval \<Rightarrow> obj \<Rightarrow> obj list \<Rightarrow> obj list" where
  "replaceById idKey idv updated prev = map (\<lambda>r. if getProp r idKey = idv then updated else r) prev"

definition removeById :: "string \<Rightarrow> jsval \<Rightarrow> obj list \<Rightarrow> obj list" where
  "removeById idKey idv prev = filter (\<lambda>r. getProp r idKey \<noteq> idv) prev"

subsection \<open>AccountsView (\<open>unnamed/part_006\<close>)\<close>

text \<open>
  In every handler the first argument is the \<open>accounts\<close> property the view was rendered
  with, which the handler copies as its snapshot; the API functions (\<open>updateAccount\<close>,
  \<open>addAccount\<close>, \<open>deleteAccount\<close>) and \<open>refetchData\<close> are the network calls. Of
  \<open>handleSave\<close> the part after validation is modelled (lines 414 to 440), with
  \<open>editingAccount\<close> deciding between update and create.
\<close>

definition AccountsView_handleSave ::
  "obj list \<Rightarrow> obj option \<Rightarrow> obj \<Rightarrow> (obj \<Rightarrow> (obj, unit) async) \<Rightarrow> (obj \<Rightarrow> (obj, unit) async) \<Rightarrow>
   (obj, unit) async \<Rightarrow> obj client \<Rightarrow> obj client" where
  "AccountsView_handleSave accounts editingAccount dataToSave updateAccount addAccount refetchData c =
     (case editingAccount of
        Some editing \<Rightarrow>
          (let originalAccounts = accounts;
               updatedAccount = editing ++ dataToSave;
               c1 = c\<lparr>records :=
                      replaceById ''accountID'' (getProp updatedAccount ''accountID'') updatedAccount (records c)\<rparr>;
               updateAction = then_await (updateAccount updatedAccount) refetchData
           in revertOnFailure originalAccounts updateAction c1)
      | None \<Rightarrow>
          (let createAction = then_await (addAccount dataToSave) refetchData
           in snd (withSyncStatus createAction c)))"

definition AccountsView_handleDelete ::
  "obj list \<Rightarrow> bool \<Rightarrow> obj \<Rightarrow> (jsval \<Rightarrow> (obj, unit) async) \<Rightarrow> (obj, unit) async \<Rightarrow>
   obj client \<Rightarrow> obj client" where
  "AccountsView_handleDelete accounts confirmed account deleteAccount refetchData c =
     (if confirmed then
        (let originalAccounts = accounts;
             c1 = c\<lparr>records := removeById ''accountID'' (getProp account ''accountID'') (records c)\<rparr>;
             deleteAction = then_await (deleteAccount (getProp account ''accountID'')) refetchData
         in revertOnFailure originalAccounts deleteAction c1)
      else c)"

definition AccountsView_handleStatusChange ::
  "obj list \<Rightarrow> obj \<Rightarrow> string \<Rightarrow> (obj \<Rightarrow> (obj, unit) async) \<Rightarrow> (obj, unit) async \<Rightarrow>
   obj client \<Rightarrow> obj client" where
  "AccountsView_handleStatusChange accounts accountToUpdate newStatus updateAccount refetchData c =
     (let originalAccounts = accounts;
          updatedAccount = accountToUpdate(''status'' \<mapsto> JStr newStatus);
          c1 = c\<lparr>records :=
                 replaceById ''accountID'' (getProp updatedAccount ''accountID'') updatedAccount (records c)\<rparr>;
          statusUpdateAction = then_await (updateAccount updatedAccount) refetchData
      in revertOnFailure originalAccounts statusUpdateAction c1)"

subsection \<open>FinancingLedgerView (\<open>unnamed/part_007\<close>)\<close>

definition FinancingLedgerView_handleSave ::
  "obj list \<Rightarrow> obj option \<Rightarrow> obj \<Rightarrow> (obj \<Rightarrow> (obj, unit) async) \<Rightarrow> (obj \<Rightarrow> (obj, unit) async) \<Rightarrow>
   (obj, unit) async \<Rightarrow> obj client \<Rightarrow> obj client" where
  "FinancingLedgerView_handleSave records_prop selectedRecord formData updateFinancingRecord
       addFinancingRecord refetchData c =
     (case selectedRecord of
        Some selected \<Rightarrow>
          (let originalRecords = records_prop;
               updatedRecord = selected ++ formData;
               c1 = c\<lparr>records :=
                      replaceById ''finance_id'' (getProp updatedRecord ''finance_id'') updatedRecord (records c)\<rparr>;
               updateAction = then_await (updateFinancingRecord updatedRecord) refetchData
           in revertOnFailure originalRecords updateAction c1)
      | None \<Rightarrow>
          (let createAction = then_await (addFinancingRecord formData) refetchData
           in snd (withSyncStatus createAction c)))"

definition FinancingLedgerView_handleStatusChange ::
  "obj list \<Rightarrow> obj \<Rightarrow> string \<Rightarrow> (obj \<Rightarrow> (obj, unit) async) \<Rightarrow> (obj, unit) async \<Rightarrow>
   obj client \<Rightarrow> obj client" where
  "FinancingLedgerView_handleStatusChange records_prop record newStatus updateFinancingRecord refetchData c =
     (let originalRecords = records_prop;
          updatedRecord = record(''agreement_status'' \<mapsto> JStr newStatus);
          c1 = c\<lparr>records :=
                 replaceById ''finance_id'' (getProp record ''finance_id'') updatedRecord (records c)\<rparr>;
          statusUpdateAction = then_await (updateFinancingRecord updatedRecord) refetchData
      in revertOnFailure originalRecords statusUpdateAction c1)"

definition FinancingLedgerView_handleDelete ::
  "obj list \<Rightarrow> obj option \<Rightarrow> (jsval \<Rightarrow> (obj, unit) async) \<Rightarrow> (obj, unit) async \<Rightarrow>
   obj client \<Rightarrow> obj client" where
  "FinancingLedgerView_handleDelete records_prop selectedRecord deleteFinancingRecord refetchData c =
     (case selectedRecord of
        None \<Rightarrow> c
      | Some selected \<Rightarrow>
          (let originalRecords = records_prop;
               recordIdToDelete = getProp selected ''finance_id'';
               c1 = c\<lparr>records := removeById ''finance_id'' recordIdToDelete (records c)\<rparr>;
               deleteAction = then_await (deleteFinancingRecord recordIdToDelete) refetchData
           in revertOnFailure originalRecords deleteAction c1))"

subsection \<open>TasksView (in \<open>components/Modal.tsx\<close>)\<close>

definition TasksView_handleSave ::
  "obj list \<Rightarrow> obj option \<Rightarrow> obj \<Rightarrow> (obj \<Rightarrow> (obj, unit) async) \<Rightarrow> (obj \<Rightarrow> (obj, unit) async) \<Rightarrow>
   (obj, unit) async \<Rightarrow> obj client \<Rightarrow> obj client" where
  "TasksView_handleSave tasks selectedTask formState updateTask addTask refetchData c =
     (case selectedTask of
        Some selected \<Rightarrow>
          (let originalTasks = tasks;
               updatedTask = selected ++ formState;
               c1 = c\<lparr>records := replaceById ''TaskID'' (getProp updatedTask ''TaskID'') updatedTask (records c)\<rparr>;
               updateAction = then_await (updateTask updatedTask) refetchData
           in revertOnFailure originalTasks updateAction c1)
      | None \<Rightarrow>
          (let createAction = then_await (addTask formState) refetchData
           in snd (withSyncStatus createAction c)))"

text \<open>\<open>nowISO\<close> is \<open>new Date().toISOString()\<close> at the time of the call.\<close>

definition TasksView_handleQuickUpdate ::
  "obj list \<Rightarrow> string \<Rightarrow> obj \<Rightarrow> string \<Rightarrow> string \<Rightarrow> (obj \<Rightarrow> (obj, unit) async) \<Rightarrow>
   (obj, unit) async \<Rightarrow> obj client \<Rightarrow> obj client" where
  "TasksView_handleQuickUpdate tasks nowISO task field val updateTask refetchData c =
     (let originalTasks = tasks;
          payload0 = task(field \<mapsto> JStr val);
          payload =
            (if field = ''Status'' \<and> val = ''Completed'' \<and> \<not> truthy (getProp task ''Completed On'')
             then payload0(''Completed On'' \<mapsto> JStr nowISO) else payload0);
          c1 = c\<lparr>records := replaceById ''TaskID'' (getProp task ''TaskID'') payload (records c)\<rparr>;
          quickUpdateAction = then_await (updateTask payload) refetchData
      in revertOnFailure originalTasks quickUpdateAction c1)"

definition TasksView_handleDelete ::
  "obj list \<Rightarrow> obj option \<Rightarrow> (jsval \<Rightarrow> (obj, unit) async) \<Rightarrow> (obj, unit) async \<Rightarrow>
   obj client \<Rightarrow> obj client" where
  "TasksView_handleDelete tasks selectedTask deleteTask refetchData c =
     (case selectedTask of
        None \<Rightarrow> c
      | Some selected \<Rightarrow>
          (let originalTasks = tasks;
               taskIdToDelete = getProp selected ''TaskID'';
               c1 = c\<lparr>records := removeById ''TaskID'' taskIdToDelete (records c)\<rparr>;
               deleteAction = then_await (deleteTask taskIdToDelete) refetchData
           in revertOnFailure originalTasks deleteAction c1))"

subsection \<open>DirectoryView (\<open>components/DirectoryView.tsx\<close>)\<close>

definition DirectoryView_handleSave ::
  "obj list \<Rightarrow> obj option \<Rightarrow> obj \<Rightarrow> (obj \<Rightarrow> (obj, unit) async) \<Rightarrow> (obj \<Rightarrow> (obj, unit) async) \<Rightarrow>
   (obj, unit) async \<Rightarrow> obj client \<Rightarrow> obj client" where
  "DirectoryView_handleSave contacts selectedContact formState updateContact addContact refetchData c =
     (case selectedContact of
        Some selected \<Rightarrow>
          (let originalContacts = contacts;
               updatedContact = selected ++ formState;
               c1 = c\<lparr>records :=
                      replaceById ''ContactID'' (getProp updatedContact ''ContactID'') updatedContact (records c)\<rparr>;
               updateAction = then_await (updateContact updatedContact) refetchData
           in revertOnFailure originalContacts updateAction c1)
      | None \<Rightarrow>
          (let createAction = then_await (addContact formState) refetchData
           in snd (withSyncStatus createAction c)))"

definition DirectoryView_handleStatusChange ::
  "obj list \<Rightarrow> obj \<Rightarrow> string \<Rightarrow> (obj \<Rightarrow> (obj, unit) async) \<Rightarrow> (obj, unit) async \<Rightarrow>
   obj client \<Rightarrow> obj client" where
  "DirectoryView_handleStatusChange contacts contact newStatus updateContact refetchData c =
     (let originalContacts = contacts;
          updatedContact = contact(''Status'' \<mapsto> JStr newStatus);
          c1 = c\<lparr>records :=
                 replaceById ''ContactID'' (getProp contact ''ContactID'') updatedContact (records c)\<rparr>;
          statusUpdateAction = then_await (updateContact updatedContact) refetchData
      in revertOnFailure originalContacts statusUpdateAction c1)"

definition DirectoryView_handleDelete ::
  "obj list \<Rightarrow> obj option \<Rightarrow> (jsval \<Rightarrow> (obj, unit) async) \<Rightarrow> (obj, unit) async \<Rightarrow>
   obj client \<Rightarrow> obj client" where
  "DirectoryView_handleDelete contacts selectedContact deleteContact refetchData c =
     (case selectedContact of
        None \<Rightarrow> c
      | Some selected \<Rightarrow>
          (let originalContacts = contacts;
               contactIdToDelete = getProp selected ''ContactID'';
               c1 = c\<lparr>records := removeById ''ContactID'' contactIdToDelete (records c)\<rparr>;
               deleteAction = then_await (deleteContact contactIdToDelete) refetchData
           in revertOnFailure originalContacts deleteAction c1))"

subsection \<open>CSHubView (in \<open>components/icons/UsersIcon.tsx\<close>)\<close>

text \<open>
  The request body of an update is built from the record by code that does not touch
  the displayed collection (the \<open>formData\<close> literal of \<open>handleStatusChange\<close>,
  \<open>mapFormToRecord\<close> of \<open>handleSave\<close>); both are parameters here.
\<close>

definition CSHubView_handleStatusChange ::
  "obj list \<Rightarrow> string \<Rightarrow> string \<Rightarrow> (obj \<Rightarrow> string \<Rightarrow> obj) \<Rightarrow> (obj \<Rightarrow> (obj, unit) async) \<Rightarrow>
   (obj, unit) async \<Rightarrow> obj client \<Rightarrow> obj client" where
  "CSHubView_handleStatusChange records_prop ticketId newStatus formDataOf updateRecord refetchData c =
     (let originalRecords = records_prop in
      case find (\<lambda>r. getProp r ''TicketID'' = JStr ticketId) originalRecords of
        None \<Rightarrow> c
      | Some recordToUpdate \<Rightarrow>
          (let updatedRecord = recordToUpdate(''Status'' \<mapsto> JStr newStatus);
               c1 = c\<lparr>records := replaceById ''TicketID'' (JStr ticketId) updatedRecord (records c)\<rparr>;
               updateAction = then_await (updateRecord (formDataOf recordToUpdate newStatus)) refetchData
           in revertOnFailure originalRecords updateAction c1))"

definition CSHubView_handleConfirmDelete ::
  "obj list \<Rightarrow> obj option \<Rightarrow> (jsval \<Rightarrow> (obj, unit) async) \<Rightarrow> (obj, unit) async \<Rightarrow>
   obj client \<Rightarrow> obj client" where
  "CSHubView_handleConfirmDelete records_prop recordToDelete deleteRecord refetchData c =
     (case recordToDelete of
        None \<Rightarrow> c
      | Some selected \<Rightarrow>
          (let originalRecords = records_prop;
               ticketIdToDelete = getProp selected ''TicketID'';
               c1 = c\<lparr>records := removeById ''TicketID'' ticketIdToDelete (records c)\<rparr>;
               deleteAction = then_await (deleteRecord ticketIdToDelete) refetchData
           in revertOnFailure originalRecords deleteAction c1))"

definition CSHubView_handleSave ::
  "obj list \<Rightarrow> obj option \<Rightarrow> obj \<Rightarrow> (obj \<Rightarrow> obj \<Rightarrow> obj) \<Rightarrow> (obj \<Rightarrow> (obj, unit) async) \<Rightarrow>
   (obj \<Rightarrow> (obj, unit) async) \<Rightarrow> (obj, unit) async \<Rightarrow> obj client \<Rightarrow> obj client" where
  "CSHubView_handleSave records_prop selectedRecord formData mapFormToRecord updateRecord createRecord
       refetchData c =
     (case selectedRecord of
        Some selected \<Rightarrow>
          (let originalRecords = records_prop;
               updatedRecord = mapFormToRecord formData selected;
               c1 = c\<lparr>records :=
                      replaceById ''TicketID'' (getProp selected ''TicketID'') updatedRecord (records c)\<rparr>;
               updateAction =
                 then_await (updateRecord (formData(''ticketId'' \<mapsto> getProp selected ''TicketID''))) refetchData
           in revertOnFailure originalRecords updateAction c1)
      | None \<Rightarrow>
          (let createAction = then_await (createRecord formData) refetchData
           in snd (withSyncStatus createAction c)))"

section \<open>Server script \<open>google-apps-script.js\<close>: platform services\<close>

text \<open>
  A sheet is the two-dimensional array that \<open>getDataRange().getValues()\<close> returns, the
  header row first; the spreadsheet maps sheet names to sheets.
\<close>

type_synonym sheet = "jsval list list"
type_synonym spreadsheet = "string \<rightharpoonup> sheet"

text \<open>
  The calls an execution of the script makes to the platform, in order: \<open>Logger.log\<close>,
  \<open>lock.waitLock(ms)\<close>, \<open>lock.releaseLock()\<close> and the invocation of the fetch function
  handed to \<open>getDataWithCache\<close>.
\<close>

datatype effect = Log string | WaitLock nat | ReleaseLock | Fetch string

text \<open>
  The state an execution works on. The script cache (\<open>CacheService.getScriptCache()\<close>)
  maps a key to a string and the time, in milliseconds, at which the entry expires; the
  clock is the current time; \<open>lockHeld\<close> says whether this execution holds the script
  lock (\<open>LockService.getScriptLock()\<close>).
\<close>

record server =
  cache :: "string \<rightharpoonup> string \<times> nat"
  sheets :: spreadsheet
  clock :: nat
  lockHeld :: bool
  effects :: "effect list"

text \<open>
  What lies outside the script: the JSON codec; what the other executions of the
  script do while this one waits for the lock (after how many milliseconds the lock
  becomes free, and how they change the cache and the spreadsheet meanwhile); the value
  of \<open>new Date()\<close>; and what \<open>uploadAccountFileToDrive\<close> returns or throws when the
  payload carries a file.
\<close>

record 'd platform =
  stringify :: "'d \<Rightarrow> string"
  parse :: "string \<Rightarrow> 'd"
  lockFreeAfter :: nat
  otherCacheWrites :: "(string \<rightharpoonup> string \<times> nat) \<Rightarrow> (string \<rightharpoonup> string \<times> nat)"
  otherSheetWrites :: "spreadsheet \<Rightarrow> spreadsheet"
  newDate :: jsval
  uploadAccountFileToDrive :: "thrown + jsval"

definition CACHE_EXPIRATION_SECONDS :: nat where
  "CACHE_EXPIRATION_SECONDS = 300"

definition Logger_log :: "string \<Rightarrow> server \<Rightarrow> server" where
  "Logger_log line s = s\<lparr>effects := effects s @ [Log line]\<rparr>"

text \<open>\<open>cache.get(key)\<close>: the value of an entry that has not expired, else \<open>null\<close>.\<close>

definition cache_get :: "server \<Rightarrow> string \<Rightarrow> string option" where
  "cache_get s key =
     (case cache s key of
        None \<Rightarrow> None
      | Some (v, expires) \<Rightarrow> if clock s < expires then Some v else None)"

text \<open>\<open>cache.put(key, value, expirationInSeconds)\<close> and \<open>cache.remove(key)\<close>.\<close>

definition cache_put :: "string \<Rightarrow> string \<Rightarrow> nat \<Rightarrow> server \<Rightarrow> server" where
  "cache_put key v seconds s = s\<lparr>cache := (cache s)(key \<mapsto> (v, clock s + seconds * 1000))\<rparr>"

definition cache_remove :: "string \<Rightarrow> server \<Rightarrow> server" where
  "cache_remove key s = s\<lparr>cache := (cache s)(key := None)\<rparr>"

definition clearCache :: "string \<Rightarrow> server \<Rightarrow> server" where
  "clearCache sheetName s = Logger_log (''Cache cleared for: '' @ sheetName) (cache_remove sheetName s)"

text \<open>
  \<open>lock.waitLock(ms)\<close> waits until the lock is free and takes it, or throws once \<open>ms\<close>
  milliseconds have passed. Either way the time has passed and the other executions
  have done their writes.
\<close>

definition lockTimeout :: thrown where
  "lockTimeout = ErrorObj ''Exception'' ''Lock timeout: another process was holding the lock for too long.''"

definition waitLock :: "'d platform \<Rightarrow> nat \<Rightarrow> server \<Rightarrow> (thrown + unit) \<times> server" where
  "waitLock p ms s =
     (let waited = min (lockFreeAfter p) ms;
          s1 = s\<lparr>cache := otherCacheWrites p (cache s), sheets := otherSheetWrites p (sheets s),
                 clock := clock s + waited, effects := effects s @ [WaitLock ms]\<rparr>
      in if lockFreeAfter p \<le> ms then (Inr (), s1\<lparr>lockHeld := True\<rparr>) else (Inl lockTimeout, s1))"

definition releaseLock :: "server \<Rightarrow> server" where
  "releaseLock s = s\<lparr>lockHeld := False, effects := effects s @ [ReleaseLock]\<rparr>"

subsection \<open>\<open>getDataWithCache\<close> (lines 233 to 261)\<close>

text \<open>
  The fetch function reads the spreadsheet (and may create a missing sheet); it has no
  access to the cache or the lock. Its invocation is recorded as an effect. The body of
  the \<open>try\<close> block is \<open>getDataWithCache_locked\<close>; the \<open>finally\<close> block releases the lock
  whether the body returned or threw.
\<close>

definition getDataWithCache_locked ::
  "'d platform \<Rightarrow> string \<Rightarrow> (spreadsheet \<Rightarrow> (thrown + 'd) \<times> spreadsheet) \<Rightarrow> server \<Rightarrow> (thrown + 'd) \<times> server" where
  "getDataWithCache_locked p sheetName fetchFunction s =
     (case cache_get s sheetName of
        Some cachedAfterLock \<Rightarrow>
          (Inr (parse p cachedAfterLock), Logger_log (''Cache HIT (after lock) for: '' @ sheetName) s)
      | None \<Rightarrow>
          (let s1 = Logger_log (''Cache MISS for: '' @ sheetName) s;
               s2 = s1\<lparr>effects := effects s1 @ [Fetch sheetName]\<rparr>
           in case fetchFunction (sheets s2) of
                (Inl err, ss) \<Rightarrow> (Inl err, s2\<lparr>sheets := ss\<rparr>)
              | (Inr data, ss) \<Rightarrow>
                  (Inr data,
                   cache_put sheetName (stringify p data) CACHE_EXPIRATION_SECONDS (s2\<lparr>sheets := ss\<rparr>))))"

definition getDataWithCache ::
  "'d platform \<Rightarrow> string \<Rightarrow> (spreadsheet \<Rightarrow> (thrown + 'd) \<times> spreadsheet) \<Rightarrow> server \<Rightarrow> (thrown + 'd) \<times> server" where
  "getDataWithCache p sheetName fetchFunction s =
     (case cache_get s sheetName of
        Some cached \<Rightarrow> (Inr (parse p cached), Logger_log (''Cache HIT for: '' @ sheetName) s)
      | None \<Rightarrow>
          (case waitLock p 30000 s of
             (Inl err, s1) \<Rightarrow> (Inl err, s1)
           | (Inr u, s1) \<Rightarrow>
               (case getDataWithCache_locked p sheetName fetchFunction s1 of
                  (r, s2) \<Rightarrow> (r, releaseLock s2))))"

section \<open>Server script: sheets and row lookup\<close>

definition SHEET_customerService :: string where "SHEET_customerService = ''Customer Service Hub''"
definition SHEET_accounts :: string where "SHEET_accounts = ''Accounts''"
definition SHEET_tasks :: string where "SHEET_tasks = ''Tasks''"
definition SHEET_directory :: string where "SHEET_directory = ''Directory''"
definition SHEET_products :: string where "SHEET_products = ''Products''"
definition SHEET_financingLedger :: string where "SHEET_financingLedger = ''FinancingLedger''"
definition SHEET_users :: string where "SHEET_users = ''Users''"

text \<open>The header rows \<open>getSheet\<close> writes into a sheet it has to create.\<close>

definition defaultHeaders :: "(string \<times> string list) list" where
  "defaultHeaders =
    [(SHEET_customerService,
       [''TicketID'', ''Ticket Category'', ''Ticket Notes'', ''First Name'', ''Last Name'',
        ''Email Address'', ''Phone Number'', ''Date of Transaction'', ''Receipt Number'',
        ''Purchase Amount'', ''Last 4 Digits of Card'', ''Product'', ''Store Name'', ''Receipt File'',
        ''Status'', ''Office Notes'', ''File 1'', ''File 2'', ''File 3'', ''File 4'', ''Timestamp'']),
     (SHEET_tasks,
       [''TaskID'', ''Task Name'', ''Due Date'', ''Task Description'', ''Contact'', ''Account'',
        ''Status'', ''Priority'', ''Notes'', ''Completed On'']),
     (SHEET_directory,
       [''ContactID'', ''First Name'', ''Last Name'', ''Phone Number'', ''Email Address'', ''Address'',
        ''Company/Organization'', ''Job Title'', ''Department'', ''Status'', ''Notes'', ''Created On'']),
     (SHEET_accounts,
       [''AccountID'', ''Location Name'', ''Account Type'', ''Contact Person'', ''Phone'', ''Email'',
        ''Address'', ''Status'', ''Notes'', ''File Upload'', ''Timestamp'']),
     (SHEET_products, [''Items'', ''Colors'', ''Category'', ''Sub-Category'']),
     (SHEET_financingLedger,
       [''finance_id'', ''customer_name'', ''customer_email'', ''customer_phone'',
        ''product_description'', ''receipt_number'', ''sale_date'', ''sales_rep'', ''store_name'',
        ''total_sale_amount'', ''down_payment_amount'', ''financed_amount'', ''installment_count'',
        ''installment_amount'', ''payment_method'', ''payment_due_day'', ''total_amount_paid'',
        ''current_balance_due'', ''agreement_status'', ''notes_log'', ''agreement_file'',
        ''id_card_file_url'', ''receipt_file'', ''created_on'', ''last_updated'']),
     (SHEET_users, [''UserID'', ''Name'', ''Email'', ''Phone'', ''AccessCode'', ''Role'', ''Location''])]"

text \<open>
  An empty sheet reads as one empty cell. \<open>appendRow\<close> writes after the last row that
  has content; \<open>deleteRow(i)\<close> and the one-row \<open>getRange(i, 1, 1, n).setValues\<close> count rows
  from 1.
\<close>

definition emptySheet :: sheet where
  "emptySheet = [[JStr []]]"

definition appendRow :: "jsval list \<Rightarrow> sheet \<Rightarrow> sheet" where
  "appendRow row sh = (if sh = emptySheet \<or> sh = [] then [row] else sh @ [row])"

definition deleteRow :: "nat \<Rightarrow> sheet \<Rightarrow> sheet" where
  "deleteRow i sh = take (i - 1) sh @ drop i sh"

definition setRowValues :: "nat \<Rightarrow> jsval list \<Rightarrow> sheet \<Rightarrow> sheet" where
  "setRowValues i vals sh = sh[i - 1 := vals @ drop (length vals) (sh ! (i - 1))]"

definition getValues :: "spreadsheet \<Rightarrow> string \<Rightarrow> sheet" where
  "getValues ss sheetName = (case ss sheetName of None \<Rightarrow> emptySheet | Some sh \<Rightarrow> sh)"

text \<open>\<open>getSheet(sheetName)\<close> (lines 563 to 582): the spreadsheet in which the sheet exists.\<close>

definition getSheet :: "string \<Rightarrow> spreadsheet \<Rightarrow> spreadsheet" where
  "getSheet sheetName ss =
     (case ss sheetName of
        Some sh \<Rightarrow> ss
      | None \<Rightarrow>
          (case map_of defaultHeaders sheetName of
             Some hs \<Rightarrow> ss(sheetName \<mapsto> appendRow (map JStr hs) emptySheet)
           | None \<Rightarrow> ss(sheetName \<mapsto> emptySheet)))"

text \<open>\<open>headers.indexOf(v)\<close>: the first position holding a value strictly equal to \<open>v\<close>.\<close>

fun indexOf :: "jsval list \<Rightarrow> jsval \<Rightarrow> nat option" where
  "indexOf [] v = None"
| "indexOf (x # xs) v = (if x = v then Some 0 else map_option Suc (indexOf xs v))"

record rowInfo =
  rowIndex :: nat
  rowData :: "jsval list"
  rowHeaders :: "jsval list"

text \<open>
  The loop \<open>for (let i = 1; i < data.length; i++)\<close> of both lookup functions, over the
  rows from index \<open>i\<close> on: the first row whose cell in the ID column, as a trimmed
  string, equals the trimmed ID.
\<close>

fun findRowFrom :: "nat \<Rightarrow> string \<Rightarrow> nat \<Rightarrow> sheet \<Rightarrow> (nat \<times> jsval list) option" where
  "findRowFrom idColumnIndex idText i [] = None"
| "findRowFrom idColumnIndex idText i (row # rows) =
     (if trim (js_string (elemAt row idColumnIndex)) = idText then Some (i, row)
      else findRowFrom idColumnIndex idText (Suc i) rows)"

definition foundRow :: "jsval list \<Rightarrow> (nat \<times> jsval list) option \<Rightarrow> rowInfo option" where
  "foundRow hs found =
     map_option (\<lambda>(i, row). \<lparr>rowIndex = i + 1, rowData = row, rowHeaders = hs\<rparr>) found"

text \<open>
  \<open>findRowById\<close> (lines 599 to 612) returns \<open>null\<close> when the ID column is missing;
  \<open>findRowByHeaderValue\<close> (lines 584 to 597) throws. Reading \<open>data[0]\<close> of an array
  without rows gives \<open>undefined\<close>, on which \<open>indexOf\<close> throws a \<open>TypeError\<close>.
\<close>

definition noHeaderRow :: thrown where
  "noHeaderRow =
     TypeError (''Cannot read properties of undefined (reading '' @ [CHR 0x27] @ ''indexOf'' @ [CHR 0x27] @ '')'')"

definition findRowById :: "sheet \<Rightarrow> jsval \<Rightarrow> string \<Rightarrow> thrown + rowInfo option" where
  "findRowById data ident idColumnName =
     (case data of
        [] \<Rightarrow> Inl noHeaderRow
      | hs # rows \<Rightarrow>
          (case indexOf hs (JStr idColumnName) of
             None \<Rightarrow> Inr None
           | Some idColumnIndex \<Rightarrow>
               Inr (foundRow hs (findRowFrom idColumnIndex (trim (js_string ident)) 1 rows))))"

definition findRowByHeaderValue :: "string \<Rightarrow> sheet \<Rightarrow> jsval \<Rightarrow> string \<Rightarrow> thrown + rowInfo option" where
  "findRowByHeaderValue sheetName data ident headerName =
     (case data of
        [] \<Rightarrow> Inl noHeaderRow
      | hs # rows \<Rightarrow>
          (case indexOf hs (JStr headerName) of
             None \<Rightarrow>
               Inl (newError (''Header '' @ [CHR 0x22] @ headerName @ [CHR 0x22] @ '' not found in sheet '' @
                              [CHR 0x22] @ sheetName @ [CHR 0x22] @ ''.''))
           | Some idColumnIndex \<Rightarrow>
               Inr (foundRow hs (findRowFrom idColumnIndex (trim (js_string ident)) 1 rows))))"

section \<open>Server script: \<open>doGet\<close> (lines 119 to 228)\<close>

text \<open>
  The data a read returns: an array of objects (Customer Service Hub, Products), the
  raw table \<open>{ headers, rows }\<close> (every other sheet), or the user object of a login.
  A response is the object the script serialises into its text output.
\<close>

datatype payload = Objects "obj list" | Table "jsval list" "jsval list list" | UserObject obj

record response =
  resp_status :: string
  resp_message :: "string option"
  resp_ticketId :: "jsval option"
  resp_data :: "payload option"

definition success_data :: "payload \<Rightarrow> response" where
  "success_data d = \<lparr>resp_status = ''success'', resp_message = None, resp_ticketId = None, resp_data = Some d\<rparr>"

definition success_message :: "string \<Rightarrow> response" where
  "success_message m =
     \<lparr>resp_status = ''success'', resp_message = Some m, resp_ticketId = None, resp_data = None\<rparr>"

definition error_response :: "string \<Rightarrow> response" where
  "error_response m = \<lparr>resp_status = ''error'', resp_message = Some m, resp_ticketId = None, resp_data = None\<rparr>"

text \<open>
  \<open>headers.forEach((header, index) => { recordObject[header] = row[index]; })\<close> on an empty
  object: a later column with the same header overwrites an earlier one. An assignment
  to the property name \<open>__proto__\<close> reaches the prototype setter of the object and creates
  no property (the prototype of an object is not part of the model).
\<close>

definition recordObject :: "jsval list \<Rightarrow> jsval list \<Rightarrow> obj" where
  "recordObject hs row =
     foldl (\<lambda>ob (index, header).
              if js_string header = ''__proto__'' then ob else ob(js_string header \<mapsto> elemAt row index))
           Map.empty (enumerate 0 hs)"

definition join :: "string \<Rightarrow> string list \<Rightarrow> string" where
  "join sep xs = (case xs of [] \<Rightarrow> [] | y # ys \<Rightarrow> foldl (\<lambda>acc x. acc @ sep @ x) y ys)"

definition desiredHeaders :: "string list" where
  "desiredHeaders = [''Items'', ''Colors'', ''Category'', ''Sub-Category'']"

definition productObject :: "nat list \<Rightarrow> jsval list \<Rightarrow> obj" where
  "productObject indices row =
     [''Item'' \<mapsto> elemAt row (indices ! 0), ''Color'' \<mapsto> elemAt row (indices ! 1),
      ''Category'' \<mapsto> elemAt row (indices ! 2), ''SubCategory'' \<mapsto> elemAt row (indices ! 3)]"

text \<open>
  The fetch function \<open>doGet\<close> passes to \<open>getDataWithCache\<close> (lines 178 to 214).
  \<open>data.shift() || []\<close> takes the first row off as the header row; of an array without
  rows the headers are \<open>[]\<close>.
\<close>

definition fetchFunction :: "string \<Rightarrow> spreadsheet \<Rightarrow> (thrown + payload) \<times> spreadsheet" where
  "fetchFunction sheetName ss =
     (let ss1 = getSheet sheetName ss;
          data0 = getValues ss1 sheetName;
          hs = (case data0 of [] \<Rightarrow> [] | h # rest \<Rightarrow> h);
          data = (case data0 of [] \<Rightarrow> [] | h # rest \<Rightarrow> rest)
      in if sheetName = SHEET_customerService then (Inr (Objects (map (recordObject hs) data)), ss1)
         else if sheetName = SHEET_products then
           (let indices = map (\<lambda>h. indexOf hs (JStr h)) desiredHeaders in
            if list_ex (\<lambda>index. index = None) indices then
              (Inl (newError (''Missing columns in '' @ [CHR 0x27] @ ''Products'' @ [CHR 0x27] @ '' sheet: '' @
                      join '', '' (map fst (filter (\<lambda>(h, index). index = None) (zip desiredHeaders indices))))),
               ss1)
            else (Inr (Objects (map (productObject (map the indices)) data)), ss1))
         else (Inr (Table hs data), ss1))"

text \<open>\<open>deleteRecord(sheet, ticketId)\<close> (lines 480 to 492), on the Customer Service Hub sheet.\<close>

definition deleteRecord :: "string \<Rightarrow> jsval \<Rightarrow> spreadsheet \<Rightarrow> (thrown + response) \<times> spreadsheet" where
  "deleteRecord sheetName ticketId ss =
     (case findRowById (getValues ss sheetName) ticketId ''TicketID'' of
        Inl err \<Rightarrow> (Inl err, ss)
      | Inr (Some info) \<Rightarrow>
          (Inr \<lparr>resp_status = ''success'', resp_message = Some ''Record deleted successfully.'',
                resp_ticketId = Some ticketId, resp_data = None\<rparr>,
           ss(sheetName \<mapsto> deleteRow (rowIndex info) (getValues ss sheetName)))
      | Inr None \<Rightarrow> (Inr (error_response ''Record not found for deletion.''), ss))"

text \<open>A query parameter \<open>e.parameter.name\<close>: a string, or \<open>undefined\<close> when absent.\<close>

definition parameter :: "(string \<rightharpoonup> string) \<Rightarrow> string \<Rightarrow> jsval" where
  "parameter e name = (case e name of None \<Rightarrow> JUndefined | Some v \<Rightarrow> JStr v)"

text \<open>The login branch (lines 133 to 165).\<close>

definition doGet_login :: "(string \<rightharpoonup> string) \<Rightarrow> spreadsheet \<Rightarrow> (thrown + response) \<times> spreadsheet" where
  "doGet_login e ss =
     (let accessCode = parameter e ''accessCode''; role = parameter e ''role'' in
      if \<not> truthy accessCode then (Inl (newError ''Access code is required.''), ss)
      else if \<not> truthy role then (Inl (newError ''Role is required.''), ss)
      else
        (let ss1 = getSheet SHEET_users ss in
         case getValues ss1 SHEET_users of
           [] \<Rightarrow> (Inl noHeaderRow, ss1)
         | hs # data \<Rightarrow>
             (case indexOf hs (JStr ''AccessCode'') of
                None \<Rightarrow> (Inl (newError ''AccessCode column not found in Users sheet.''), ss1)
              | Some accessCodeIndex \<Rightarrow>
                  (case indexOf hs (JStr ''Role'') of
                     None \<Rightarrow> (Inl (newError ''Role column not found in Users sheet.''), ss1)
                   | Some roleIndex \<Rightarrow>
                       (case find (\<lambda>row.
                                trim (js_string (elemAt row accessCodeIndex)) = trim (js_string accessCode)
                              \<and> trim (js_string (elemAt row roleIndex)) = trim (js_string role)) data of
                          Some userRow \<Rightarrow> (Inr (success_data (UserObject (recordObject hs userRow))), ss1)
                        | None \<Rightarrow>
                            (Inl (newError ''Invalid access code for the selected portal.''), ss1))))))"

definition sheetNameOf :: "jsval \<Rightarrow> string" where
  "sheetNameOf action =
     (if action = JStr ''getAccounts'' then SHEET_accounts
      else if action = JStr ''getTasks'' then SHEET_tasks
      else if action = JStr ''getDirectory'' then SHEET_directory
      else if action = JStr ''getProducts'' then SHEET_products
      else if action = JStr ''getFinancingLedger'' then SHEET_financingLedger
      else SHEET_customerService)"

text \<open>The body of the \<open>try\<close> block of \<open>doGet\<close>, and \<open>doGet\<close> with its \<open>catch\<close> block.\<close>

definition doGet_try :: "payload platform \<Rightarrow> (string \<rightharpoonup> string) \<Rightarrow> server \<Rightarrow> (thrown + response) \<times> server" where
  "doGet_try p e s =
     (let action = parameter e ''action'' in
      if action = JStr ''delete'' then
        (case deleteRecord SHEET_customerService (parameter e ''ticketId'')
                (getSheet SHEET_customerService (sheets s)) of
           (Inl err, ss) \<Rightarrow> (Inl err, s\<lparr>sheets := ss\<rparr>)
         | (Inr response, ss) \<Rightarrow> (Inr response, clearCache SHEET_customerService (s\<lparr>sheets := ss\<rparr>)))
      else if action = JStr ''login'' then
        (case doGet_login e (sheets s) of (r, ss) \<Rightarrow> (r, s\<lparr>sheets := ss\<rparr>))
      else
        (case getDataWithCache p (sheetNameOf action) (fetchFunction (sheetNameOf action)) s of
           (Inl err, s1) \<Rightarrow> (Inl err, s1)
         | (Inr cachedData, s1) \<Rightarrow> (Inr (success_data cachedData), s1)))"

definition doGet :: "payload platform \<Rightarrow> (string \<rightharpoonup> string) \<Rightarrow> server \<Rightarrow> response \<times> server" where
  "doGet p e s =
     (case doGet_try p e s of
        (Inr response, s1) \<Rightarrow> (response, s1)
      | (Inl err, s1) \<Rightarrow>
          (error_response (error_toString err), Logger_log (''GET Error: '' @ error_toString err) s1))"

section \<open>Server script: \<open>doPost\<close> (lines 44 to 114)\<close>

text \<open>
  Of the parsed request the router reads \<open>action\<close> and \<open>formType\<close>. For a request with an
  action the \<open>switch\<close> assigns \<open>sheetToInvalidate\<close> and calls the handler of the action, and
  throws on an action it does not know.
\<close>

definition sheetToInvalidate :: "jsval \<Rightarrow> string option" where
  "sheetToInvalidate action =
     (if action \<in> {JStr ''addAccount'', JStr ''updateAccount'', JStr ''deleteAccount''}
        then Some SHEET_accounts
      else if action \<in> {JStr ''addTask'', JStr ''updateTask'', JStr ''deleteTask''}
        then Some SHEET_tasks
      else if action \<in> {JStr ''addContact'', JStr ''updateContact'', JStr ''deleteContact''}
        then Some SHEET_directory
      else if action \<in> {JStr ''addFinancingRecord'', JStr ''updateFinancingRecord'',
                          JStr ''deleteFinancingRecord''}
        then Some SHEET_financingLedger
      else None)"

text \<open>
  The handlers are a parameter: \<open>handler\<close> is the call the route selects, with the payload
  or the form data of the request, as a function of the spreadsheet that returns a
  response or throws. For the forms of the Customer Service Hub the router obtains the
  sheet (and creates a missing one) before the call. After the call the cache entry of
  the sheet is cleared when the response has status success (lines 99 to 102); a handler
  that throws ends in the \<open>catch\<close> block. The log line of the \<open>catch\<close> block also carries
  the stack trace of the error, which is left out here.
\<close>

definition doPost_try ::
  "jsval \<Rightarrow> jsval \<Rightarrow> (spreadsheet \<Rightarrow> (thrown + response) \<times> spreadsheet) \<Rightarrow> server \<Rightarrow>
   (thrown + response) \<times> server" where
  "doPost_try action formType handler s =
     (let routed =
            (if truthy action then
               (case sheetToInvalidate action of
                  None \<Rightarrow> (Inl (newError (''Unknown POST action: '' @ js_string action)), sheets s, None)
                | Some sheetName \<Rightarrow>
                    (case handler (sheets s) of (r, ss) \<Rightarrow> (r, ss, Some sheetName)))
             else if formType = JStr ''create'' \<or> formType = JStr ''update'' then
               (case handler (getSheet SHEET_customerService (sheets s)) of
                  (r, ss) \<Rightarrow> (r, ss, Some SHEET_customerService))
             else (Inl (newError ''Invalid POST request format.''), sheets s, None))
      in case routed of
           (Inl err, ss, sheetName) \<Rightarrow> (Inl err, s\<lparr>sheets := ss\<rparr>)
         | (Inr response, ss, sheetName) \<Rightarrow>
             (Inr response,
              if resp_status response = ''success'' \<and> sheetName \<noteq> None
              then clearCache (the sheetName) (s\<lparr>sheets := ss\<rparr>)
              else s\<lparr>sheets := ss\<rparr>))"

definition doPost ::
  "jsval \<Rightarrow> jsval \<Rightarrow> (spreadsheet \<Rightarrow> (thrown + response) \<times> spreadsheet) \<Rightarrow> server \<Rightarrow>
   response \<times> server" where
  "doPost action formType handler s =
     (case doPost_try action formType handler s of
        (Inr response, s1) \<Rightarrow> (response, s1)
      | (Inl err, s1) \<Rightarrow>
          (error_response (error_toString err), Logger_log (''POST Error: '' @ error_toString err) s1))"

section \<open>Server script: updating a row by ID\<close>

text \<open>
  \<open>sheetName.slice(0, -1)\<close> in the messages of the generic handlers drops the last
  character of the sheet name.
\<close>

definition singular :: "string \<Rightarrow> string" where
  "singular sheetName = butlast sheetName"

text \<open>
  \<open>genericUpdate(sheetName, payload, idKey, autoTimestampKey)\<close> (lines 274 to 287); the
  last argument is \<open>null\<close> for tasks and \<open>'Created On'\<close> for the directory.
\<close>

definition genericUpdate ::
  "'d platform \<Rightarrow> string \<Rightarrow> obj \<Rightarrow> string \<Rightarrow> string option \<Rightarrow> spreadsheet \<Rightarrow> (thrown + response) \<times> spreadsheet" where
  "genericUpdate p sheetName payload idKey autoTimestampKey ss =
     (let ss1 = getSheet sheetName ss;
          ident = getProp payload idKey
      in if \<not> truthy ident then (Inl (newError (idKey @ '' is required for update.'')), ss1)
         else
           (case findRowByHeaderValue sheetName (getValues ss1 sheetName) ident idKey of
              Inl err \<Rightarrow> (Inl err, ss1)
            | Inr None \<Rightarrow>
                (Inl (newError (singular sheetName @ '' with ID '' @ js_string ident @ '' not found.'')), ss1)
            | Inr (Some info) \<Rightarrow>
                (let payload1 =
                       (case autoTimestampKey of None \<Rightarrow> payload | Some k \<Rightarrow> payload(k \<mapsto> newDate p));
                     mapped =
                       map_or_throw (\<lambda>(index, header).
                              case hasOwnProperty payload1 (js_string header) of
                                Inl err \<Rightarrow> Inl err
                              | Inr own \<Rightarrow>
                                  Inr (if own then getProp payload1 (js_string header)
                                       else elemAt (rowData info) index))
                           (enumerate 0 (rowHeaders info))
                 in case mapped of
                      Inl err \<Rightarrow> (Inl err, ss1)
                    | Inr newRowData \<Rightarrow>
                        (Inr (success_message (singular sheetName @ '' updated successfully.'')),
                         ss1(sheetName \<mapsto>
                               setRowValues (rowIndex info) newRowData (getValues ss1 sheetName))))))"

subsection \<open>\<open>getHeaderToFieldMap\<close> (lines 614 to 628)\<close>

definition is_digit :: "char \<Rightarrow> bool" where
  "is_digit c = (48 \<le> (of_char c :: nat) \<and> (of_char c :: nat) \<le> 57)"

definition is_upper :: "char \<Rightarrow> bool" where
  "is_upper c = (65 \<le> (of_char c :: nat) \<and> (of_char c :: nat) \<le> 90)"

definition is_lower :: "char \<Rightarrow> bool" where
  "is_lower c = (97 \<le> (of_char c :: nat) \<and> (of_char c :: nat) \<le> 122)"

definition is_alnum :: "char \<Rightarrow> bool" where
  "is_alnum c = (is_digit c \<or> is_upper c \<or> is_lower c)"

text \<open>The class of word characters: letters, digits and the underscore.\<close>

definition is_word :: "char \<Rightarrow> bool" where
  "is_word c = (is_alnum c \<or> c = CHR ''_'')"

text \<open>The line terminators, which the dot of a regular expression does not match.\<close>

definition is_line_terminator :: "char \<Rightarrow> bool" where
  "is_line_terminator c = (of_char c \<in> {10, 13 :: nat})"

text \<open>
  \<open>toLowerCase\<close> and \<open>toUpperCase\<close> on one character. The script applies them only to
  characters that the first replacement of the chain has kept, which are ASCII letters,
  digits and white space; of these they change the ASCII letters only.
\<close>

definition toLowerCase :: "char \<Rightarrow> char" where
  "toLowerCase c = (if is_upper c then char_of (of_char c + 32 :: nat) else c)"

definition toUpperCase :: "char \<Rightarrow> char" where
  "toUpperCase c = (if is_lower c then char_of (of_char c - 32 :: nat) else c)"

text \<open>
  The last replacement of the chain: every run of white space followed by a character
  becomes that character in upper case. \<open>run\<close> is the white space read since the last
  other character. At the end of the string the expression can still match inside a
  run of two or more: the run up to its last character that is no line terminator,
  with that character as the group.
\<close>

definition trailingRun :: "string \<Rightarrow> string" where
  "trailingRun run =
     (case run of
        [] \<Rightarrow> []
      | r # rest \<Rightarrow>
          (let terminators = rev (takeWhile is_line_terminator (rev rest)) in
           if length terminators < length rest
           then toUpperCase (rest ! (length rest - length terminators - 1)) # terminators
           else run))"

fun upperAfterSpace :: "string \<Rightarrow> string \<Rightarrow> string" where
  "upperAfterSpace run [] = trailingRun run"
| "upperAfterSpace run (c # cs) =
     (if is_space c then upperAfterSpace (run @ [c]) cs
      else if run = [] then c # upperAfterSpace [] cs
      else toUpperCase c # upperAfterSpace [] cs)"

text \<open>
  The chain \<open>cleanHeader.replace(/[^a-zA-Z0-9\s]/g, '').replace(/^\w/, c => c.toLowerCase())
  .replace(/\s+(.)/g, (match, chr) => chr.toUpperCase())\<close>.
\<close>

definition camelCaseKey :: "string \<Rightarrow> string" where
  "camelCaseKey cleanHeader =
     (let kept = filter (\<lambda>c. is_alnum c \<or> is_space c) cleanHeader;
          lowered = (case kept of [] \<Rightarrow> [] | c # cs \<Rightarrow> if is_word c then toLowerCase c # cs else kept)
      in upperAfterSpace [] lowered)"

text \<open>
  The map from the trimmed headers to their field names. \<open>map[cleanHeader] = camelCaseKey\<close>
  creates no property for the name \<open>__proto__\<close>: the assignment reaches the prototype
  setter, which ignores a string.
\<close>

definition getHeaderToFieldMap :: "jsval list \<Rightarrow> (string \<rightharpoonup> string)" where
  "getHeaderToFieldMap hs =
     foldl (\<lambda>m header.
              if \<not> truthy header then m
              else if trim (js_string header) = ''__proto__'' then m
              else m(trim (js_string header) \<mapsto> camelCaseKey (trim (js_string header))))
           Map.empty hs"

subsection \<open>\<open>handleUpdateAccount\<close> (lines 383 to 418)\<close>

text \<open>
  \<open>header.trim()\<close> throws a \<open>TypeError\<close> on a header cell that is not a string. A key
  that the header map does not know is \<open>undefined\<close>, and \<open>payload.hasOwnProperty(key)\<close>
  then asks for the property named \<open>undefined\<close>. \<open>headerMap['__proto__']\<close> is the prototype
  object of the map: it is none of the names the handler compares the key with, and as
  a property name it reads \<open>[object Object]\<close>, which is how the model keeps it.
\<close>

definition keyOfHeader :: "(string \<rightharpoonup> string) \<Rightarrow> jsval \<Rightarrow> thrown + jsval" where
  "keyOfHeader headerMap header =
     (case header of
        JStr h \<Rightarrow>
          Inr (if trim h = ''__proto__'' then JStr ''[object Object]''
               else case headerMap (trim h) of None \<Rightarrow> JUndefined | Some k \<Rightarrow> JStr k)
      | JUndefined \<Rightarrow>
          Inl (TypeError (''Cannot read properties of undefined (reading '' @ [CHR 0x27] @ ''trim'' @
                          [CHR 0x27] @ '')''))
      | JNull \<Rightarrow>
          Inl (TypeError (''Cannot read properties of null (reading '' @ [CHR 0x27] @ ''trim'' @
                          [CHR 0x27] @ '')''))
      | _ \<Rightarrow> Inl (TypeError ''header.trim is not a function''))"

text \<open>The cell the callback of \<open>headers.map\<close> returns for a column with field name \<open>key\<close>.\<close>

definition accountCell ::
  "'d platform \<Rightarrow> obj \<Rightarrow> jsval \<Rightarrow> jsval list \<Rightarrow> nat \<Rightarrow> jsval \<Rightarrow> thrown + jsval" where
  "accountCell p payload fileUrl existingData index key =
     (if key = JStr ''timestamp'' then Inr (newDate p)
      else if key = JStr ''accountID'' then Inr (getProp payload ''accountID'')
      else if key = JStr ''fileUpload'' \<and> fileUrl \<noteq> JNull then Inr fileUrl
      else case hasOwnProperty payload (js_string key) of
             Inl err \<Rightarrow> Inl err
           | Inr own \<Rightarrow> Inr (if own then getProp payload (js_string key) else elemAt existingData index))"

definition accountRow ::
  "'d platform \<Rightarrow> obj \<Rightarrow> jsval \<Rightarrow> jsval list \<Rightarrow> (string \<rightharpoonup> string) \<Rightarrow> (nat \<times> jsval) list \<Rightarrow>
   thrown + jsval list" where
  "accountRow p payload fileUrl existingData headerMap indexed =
     map_or_throw (\<lambda>(index, header).
                     case keyOfHeader headerMap header of
                       Inl err \<Rightarrow> Inl err
                     | Inr key \<Rightarrow> accountCell p payload fileUrl existingData index key)
                  indexed"

definition handleUpdateAccount :: "'d platform \<Rightarrow> obj \<Rightarrow> spreadsheet \<Rightarrow> (thrown + response) \<times> spreadsheet" where
  "handleUpdateAccount p payload ss =
     (let ss1 = getSheet SHEET_accounts ss in
      case findRowById (getValues ss1 SHEET_accounts) (getProp payload ''accountID'') ''AccountID'' of
        Inl err \<Rightarrow> (Inl err, ss1)
      | Inr None \<Rightarrow>
          (Inl (newError (''Account ID not found for update: '' @ js_string (getProp payload ''accountID''))), ss1)
      | Inr (Some info) \<Rightarrow>
          (case (if truthy (getProp payload ''file'') then uploadAccountFileToDrive p else Inr JNull) of
             Inl err \<Rightarrow> (Inl err, ss1)
           | Inr fileUrl \<Rightarrow>
               (case accountRow p payload fileUrl (rowData info) (getHeaderToFieldMap (rowHeaders info))
                       (enumerate 0 (rowHeaders info)) of
                  Inl err \<Rightarrow> (Inl err, ss1)
                | Inr newRowData \<Rightarrow>
                    (Inr (success_message ''Account updated successfully.''),
                     ss1(SHEET_accounts \<mapsto>
                           setRowValues (rowIndex info) newRowData (getValues ss1 SHEET_accounts))))))"

section \<open>Notions the properties are stated with\<close>

text \<open>A network call that rejects in whatever state it is issued: the mutation fails.\<close>

definition always_rejects :: "('r, 'a) async \<Rightarrow> bool" where
  "always_rejects call = (\<forall>c. isl (fst (call c)))"

text \<open>
  What it means for a string to be the decimal numeral of a number, as a template
  literal renders it: digits only, without a leading zero, after a minus sign for a
  negative number, and read in base ten the digits give the number.
\<close>

definition digit_value :: "char \<Rightarrow> nat" where
  "digit_value c = of_char c - 48"

definition decimal_value :: "string \<Rightarrow> nat" where
  "decimal_value ds = foldl (\<lambda>v c. 10 * v + digit_value c) 0 ds"

definition is_numeral :: "string \<Rightarrow> bool" where
  "is_numeral ds = (ds \<noteq> [] \<and> list_all is_digit ds \<and> (hd ds = CHR ''0'' \<longrightarrow> ds = ''0''))"

definition is_decimal_of :: "string \<Rightarrow> int \<Rightarrow> bool" where
  "is_decimal_of s i =
     (if i < 0 then s \<noteq> [] \<and> hd s = CHR ''-'' \<and> is_numeral (tl s) \<and> int (decimal_value (tl s)) = - i
      else is_numeral s \<and> int (decimal_value s) = i)"

text \<open>
  How often an execution has invoked the fetch function for a key, and how often it has
  asked for the lock, read off the effects.
\<close>

definition fetchCount :: "string \<Rightarrow> server \<Rightarrow> nat" where
  "fetchCount key s = length (filter (\<lambda>e. e = Fetch key) (effects s))"

definition lockCalls :: "server \<Rightarrow> nat" where
  "lockCalls s = length (filter (\<lambda>e. case e of WaitLock ms \<Rightarrow> True | _ \<Rightarrow> False) (effects s))"

text \<open>The reads of \<open>doGet\<close> that go through the cache: neither the legacy delete nor a login.\<close>

definition is_data_action :: "jsval \<Rightarrow> bool" where
  "is_data_action action = (action \<noteq> JStr ''delete'' \<and> action \<noteq> JStr ''login'')"




definition fieldsOf :: "jsval list \<Rightarrow> jsval list \<Rightarrow> obj" where
  "fieldsOf hs row =
     foldl (\<lambda>r (index, header). r(js_string header \<mapsto> elemAt row index)) Map.empty (enumerate 0 hs)"





text \<open>
  The row an update is meant for: \<open>id_matches\<close> says that the cell of a row in the column
  headed \<open>idColumn\<close> is, as a trimmed string, the trimmed ID; \<open>first_match data idColumn
  ident k\<close> that row \<open>k\<close> is the first row below the header row whose ID matches.
\<close>

definition id_matches :: "jsval list \<Rightarrow> string \<Rightarrow> jsval \<Rightarrow> jsval list \<Rightarrow> bool" where
  "id_matches hs idColumn ident row =
     (case indexOf hs (JStr idColumn) of
        None \<Rightarrow> False
      | Some idColumnIndex \<Rightarrow> trim (js_string (elemAt row idColumnIndex)) = trim (js_string ident))"

definition first_match :: "sheet \<Rightarrow> string \<Rightarrow> jsval \<Rightarrow> nat \<Rightarrow> bool" where
  "first_match data idColumn ident k =
     (0 < k \<and> k < length data \<and> id_matches (hd data) idColumn ident (data ! k)
      \<and> (\<forall>i < k. 0 < i \<longrightarrow> \<not> id_matches (hd data) idColumn ident (data ! i)))"

section \<open>Concurrent executions of \<open>getDataWithCache\<close>\<close>

text \<open>
  Several executions of the script run \<open>getDataWithCache\<close> for the same key at the same
  time. They share the cache, the spreadsheet and the script lock; each is at one of the
  statements of the function, which the platform calls make atomic steps: the first
  \<open>cache.get\<close> (line 235), \<open>lock.waitLock\<close> (243), the second \<open>cache.get\<close> (247), the call
  of the fetch function (254), \<open>cache.put\<close> (255), \<open>lock.releaseLock\<close> in the \<open>finally\<close>
  block (259), and the return.
\<close>

datatype 'd pc =
    AtFastCheck
  | AtWaitLock
  | AtRecheck
  | AtFetch
  | AtPut 'd
  | AtRelease "thrown + 'd"
  | Returned "thrown + 'd"

text \<open>
  One step of an execution at \<open>pc\<close> on the shared state, where \<open>lockHeld\<close> now says that
  some execution holds the script lock. \<open>waitLock\<close> can only return when the lock is
  free; an execution that has returned takes no step. The steps leave the clock as it
  is; an entry that expires while the executions run is an \<open>Evict\<close> of the scheduler below.
\<close>

fun thread_step ::
  "'d platform \<Rightarrow> string \<Rightarrow> (spreadsheet \<Rightarrow> (thrown + 'd) \<times> spreadsheet) \<Rightarrow> 'd pc \<Rightarrow> server \<Rightarrow>
   ('d pc \<times> server) option" where
  "thread_step p key f AtFastCheck s =
     (case cache_get s key of
        Some cached \<Rightarrow> Some (Returned (Inr (parse p cached)), Logger_log (''Cache HIT for: '' @ key) s)
      | None \<Rightarrow> Some (AtWaitLock, s))"
| "thread_step p key f AtWaitLock s =
     (if lockHeld s then None
      else Some (AtRecheck, s\<lparr>effects := effects s @ [WaitLock 30000], lockHeld := True\<rparr>))"
| "thread_step p key f AtRecheck s =
     (case cache_get s key of
        Some cachedAfterLock \<Rightarrow>
          Some (AtRelease (Inr (parse p cachedAfterLock)),
                Logger_log (''Cache HIT (after lock) for: '' @ key) s)
      | None \<Rightarrow> Some (AtFetch, Logger_log (''Cache MISS for: '' @ key) s))"
| "thread_step p key f AtFetch s =
     (let s1 = s\<lparr>effects := effects s @ [Fetch key]\<rparr> in
      case f (sheets s1) of
        (Inl err, ss) \<Rightarrow> Some (AtRelease (Inl err), s1\<lparr>sheets := ss\<rparr>)
      | (Inr data, ss) \<Rightarrow> Some (AtPut data, s1\<lparr>sheets := ss\<rparr>))"
| "thread_step p key f (AtPut data) s =
     Some (AtRelease (Inr data), cache_put key (stringify p data) CACHE_EXPIRATION_SECONDS s)"
| "thread_step p key f (AtRelease r) s = Some (Returned r, releaseLock s)"
| "thread_step p key f (Returned r) s = None"

text \<open>
  The pool of executions, and what can happen next: execution \<open>i\<close> takes its step; the
  wait of execution \<open>i\<close> for a lock that another one holds runs out; or the entry of the
  key leaves the cache (\<open>Evict\<close>), because it expired or because a write handled by
  another execution invalidated it with \<open>clearCache\<close>.
\<close>

record 'd pool =
  srv :: server
  threads :: "'d pc list"

datatype action = Step nat | Timeout nat | Evict

fun perform ::
  "'d platform \<Rightarrow> string \<Rightarrow> (spreadsheet \<Rightarrow> (thrown + 'd) \<times> spreadsheet) \<Rightarrow> action \<Rightarrow> 'd pool \<Rightarrow>
   'd pool option" where
  "perform p key f (Step i) w =
     (if i < length (threads w) then
        (case thread_step p key f (threads w ! i) (srv w) of
           None \<Rightarrow> None
         | Some (pc1, s1) \<Rightarrow> Some \<lparr>srv = s1, threads = (threads w)[i := pc1]\<rparr>)
      else None)"
| "perform p key f (Timeout i) w =
     (if i < length (threads w) \<and> threads w ! i = AtWaitLock \<and> lockHeld (srv w) then
        Some \<lparr>srv = (srv w)\<lparr>effects := effects (srv w) @ [WaitLock 30000]\<rparr>,
              threads = (threads w)[i := Returned (Inl lockTimeout)]\<rparr>
      else None)"
| "perform p key f Evict w = Some (w\<lparr>srv := cache_remove key (srv w)\<rparr>)"

fun exec ::
  "'d platform \<Rightarrow> string \<Rightarrow> (spreadsheet \<Rightarrow> (thrown + 'd) \<times> spreadsheet) \<Rightarrow> action list \<Rightarrow> 'd pool \<Rightarrow>
   'd pool option" where
  "exec p key f [] w = Some w"
| "exec p key f (a # as) w =
     (case perform p key f a w of None \<Rightarrow> None | Some w1 \<Rightarrow> exec p key f as w1)"

text \<open>\<open>n\<close> callers that have invoked the function and not yet executed its first statement.\<close>

definition callers :: "nat \<Rightarrow> server \<Rightarrow> 'd pool" where
  "callers n s = \<lparr>srv = s, threads = replicate n AtFastCheck\<rparr>"

text \<open>The statements between \<open>waitLock\<close> and \<open>releaseLock\<close>.\<close>

fun in_critical_section :: "'d pc \<Rightarrow> bool" where
  "in_critical_section AtRecheck = True"
| "in_critical_section AtFetch = True"
| "in_critical_section (AtPut data) = True"
| "in_critical_section (AtRelease r) = True"
| "in_critical_section pc = False"

text \<open>
  The stages a contended cold read goes through when the fetch function returns
  \<open>data\<close>, told by where the executions can be: before the fetch; after the fetch and
  before the store; after the store. A caller can hold the fetched \<open>data\<close> itself or what
  \<open>JSON.parse\<close> makes of the cached text.
\<close>

definition before_fetch :: "'d pc \<Rightarrow> bool" where
  "before_fetch pc =
     (pc = AtFastCheck \<or> pc = AtWaitLock \<or> pc = AtRecheck \<or> pc = AtFetch \<or> pc = Returned (Inl lockTimeout))"

definition before_store :: "'d \<Rightarrow> 'd pc \<Rightarrow> bool" where
  "before_store data pc =
     (pc = AtFastCheck \<or> pc = AtWaitLock \<or> pc = AtPut data \<or> pc = Returned (Inl lockTimeout))"

definition is_payload :: "'d platform \<Rightarrow> 'd \<Rightarrow> thrown + 'd \<Rightarrow> bool" where
  "is_payload p data r = (r = Inr data \<or> r = Inr (parse p (stringify p data)))"

definition after_store :: "'d platform \<Rightarrow> 'd \<Rightarrow> 'd pc \<Rightarrow> bool" where
  "after_store p data pc =
     (case pc of
        AtFastCheck \<Rightarrow> True
      | AtWaitLock \<Rightarrow> True
      | AtRecheck \<Rightarrow> True
      | AtRelease r \<Rightarrow> is_payload p data r
      | Returned r \<Rightarrow> is_payload p data r \<or> r = Inl lockTimeout
      | _ \<Rightarrow> False)"

definition contention_inv :: "'d platform \<Rightarrow> string \<Rightarrow> server \<Rightarrow> 'd \<Rightarrow> 'd pool \<Rightarrow> bool" where
  "contention_inv p key s0 data w =
     (length (filter in_critical_section (threads w)) = (if lockHeld (srv w) then 1 else 0)
      \<and> clock (srv w) = clock s0
      \<and> (fetchCount key (srv w) = fetchCount key s0 \<and> cache (srv w) = cache s0
           \<and> sheets (srv w) = sheets s0 \<and> list_all before_fetch (threads w)
         \<or> fetchCount key (srv w) = fetchCount key s0 + 1 \<and> cache (srv w) = cache s0
           \<and> lockHeld (srv w) \<and> list_all (before_store data) (threads w)
         \<or> fetchCount key (srv w) = fetchCount key s0 + 1
           \<and> cache_get (srv w) key = Some (stringify p data)
           \<and> list_all (after_store p data) (threads w)))"

text \<open>
  The number of statements an execution at \<open>pc\<close> has at most still to execute, and whether
  it has returned (with a value or an error).
\<close>

fun remaining :: "'d pc \<Rightarrow> nat" where
  "remaining AtFastCheck = 6"
| "remaining AtWaitLock = 5"
| "remaining AtRecheck = 4"
| "remaining AtFetch = 3"
| "remaining (AtPut data) = 2"
| "remaining (AtRelease r) = 1"
| "remaining (Returned r) = 0"

fun has_returned :: "'d pc \<Rightarrow> bool" where
  "has_returned (Returned r) = True"
| "has_returned pc = False"

text \<open>
  The caller that fetched holds the fetched \<open>data\<close> itself from the store on. Once the
  lock is free again and a caller has returned, the entry is stored; and once the entry
  is stored, some caller holds the fetched data.
\<close>

definition holds_fetched :: "'d \<Rightarrow> 'd pc \<Rightarrow> bool" where
  "holds_fetched data pc = (pc = AtRelease (Inr data) \<or> pc = Returned (Inr data))"

definition fetcher_inv :: "string \<Rightarrow> 'd \<Rightarrow> 'd pool \<Rightarrow> bool" where
  "fetcher_inv key data w =
     ((\<not> lockHeld (srv w) \<and> list_ex has_returned (threads w) \<longrightarrow> cache_get (srv w) key \<noteq> None)
      \<and> (cache_get (srv w) key \<noteq> None \<longrightarrow> list_ex (holds_fetched data) (threads w)))"

section \<open>Concrete inputs\<close>

text \<open>
  A platform on which JSON text is the payload itself, the lock is free after 5 ms and
  no other execution writes; and a server with nothing cached.
\<close>

definition quietPlatform :: "string platform" where
  "quietPlatform =
     \<lparr>stringify = (\<lambda>d. d), parse = (\<lambda>t. t), lockFreeAfter = 5,
      otherCacheWrites = (\<lambda>c. c), otherSheetWrites = (\<lambda>ss. ss),
      newDate = JStr ''2024-05-01T10:00:00.000Z'',
      uploadAccountFileToDrive = Inr (JStr ''https://drive.example/file'')\<rparr>"

definition coldServer :: server where
  "coldServer = \<lparr>cache = Map.empty, sheets = Map.empty, clock = 0, lockHeld = False, effects = []\<rparr>"

definition initialClient :: "'r list \<Rightarrow> 'r client" where
  "initialClient rs = \<lparr>records = rs, syncState = initialSyncState, loadError = None\<rparr>"

text \<open>Two accounts and two financing records as displayed.\<close>

definition acc1 :: obj where
  "acc1 = [''accountID'' \<mapsto> JStr ''acc-1'', ''status'' \<mapsto> JStr ''Active'']"

definition acc2 :: obj where
  "acc2 = [''accountID'' \<mapsto> JStr ''acc-2'', ''status'' \<mapsto> JStr ''Active'']"

definition fin42 :: obj where
  "fin42 = [''finance_id'' \<mapsto> JStr ''42'']"

definition fin7 :: obj where
  "fin7 = [''finance_id'' \<mapsto> JStr ''7'']"

text \<open>
  A Customer Service Hub sheet with one ticket, served from a server whose cache holds
  an entry for the sheet, and the legacy delete request for a ticket that is not there.
\<close>

definition hubSheet :: sheet where
  "hubSheet = [[JStr ''TicketID'', JStr ''Status''], [JStr ''TICKET-1'', JStr ''New'']]"

definition hubServer :: server where
  "hubServer =
     \<lparr>cache = [SHEET_customerService \<mapsto> (''[]'', 300000)],
      sheets = [SHEET_customerService \<mapsto> hubSheet],
      clock = 0, lockHeld = False, effects = []\<rparr>"

definition deleteMissingTicket :: "string \<rightharpoonup> string" where
  "deleteMissingTicket = [''action'' \<mapsto> ''delete'', ''ticketId'' \<mapsto> ''TICKET-404'']"

text \<open>
  A platform for \<open>doGet\<close> whose codec is trivial (no input below reaches it), and a
  spreadsheet whose Products sheet lacks two of the columns the read asks for.
\<close>

definition readPlatform :: "payload platform" where
  "readPlatform =
     \<lparr>stringify = (\<lambda>d. ''{}''), parse = (\<lambda>t. Objects []), lockFreeAfter = 5,
      otherCacheWrites = (\<lambda>c. c), otherSheetWrites = (\<lambda>ss. ss),
      newDate = JStr ''2024-05-01T10:00:00.000Z'',
      uploadAccountFileToDrive = Inr (JStr ''https://drive.example/file'')\<rparr>"

definition productsServer :: server where
  "productsServer = coldServer\<lparr>sheets := [SHEET_products \<mapsto> [[JStr ''Items'', JStr ''Colors'']]]\<rparr>"

definition missingColumns :: thrown where
  "missingColumns =
     newError (''Missing columns in '' @ [CHR 0x27] @ ''Products'' @ [CHR 0x27] @ '' sheet: Category, Sub-Category'')"



text \<open>
  A Tasks sheet and an Accounts sheet with two records each, and an update for the second
  record of each; an Accounts sheet whose second column has a blank header, and an
  update with a key named \<open>undefined\<close>.
\<close>

definition tasksSheet :: sheet where
  "tasksSheet = [[JStr ''TaskID'', JStr ''Status'', JStr ''Notes''],
                 [JStr ''task-1'', JStr ''Open'', JStr ''call back''],
                 [JStr ''task-2'', JStr ''Open'', JStr ''send quote'']]"

definition taskPayload :: obj where
  "taskPayload = [''TaskID'' \<mapsto> JStr ''task-2'', ''Status'' \<mapsto> JStr ''Done'']"

definition accountsSheet :: sheet where
  "accountsSheet = [[JStr ''AccountID'', JStr ''Status'', JStr ''Notes''],
                    [JStr ''acc-1'', JStr ''Active'', JStr ''VIP''],
                    [JStr ''acc-2'', JStr ''Active'', JStr ''net 30'']]"

definition accountPayload :: obj where
  "accountPayload = [''accountID'' \<mapsto> JStr ''acc-2'', ''status'' \<mapsto> JStr ''Closed'']"



text \<open>
  A server that holds the Tasks sheet and a cached entry for it, and an update for a
  task that is not in the sheet.
\<close>

definition tasksServer :: server where
  "tasksServer =
     \<lparr>cache = [SHEET_tasks \<mapsto> (''{}'', 300000)], sheets = [SHEET_tasks \<mapsto> tasksSheet],
      clock = 0, lockHeld = False, effects = []\<rparr>"

definition missingTaskPayload :: obj where
  "missingTaskPayload = [''TaskID'' \<mapsto> JStr ''task-9'', ''Status'' \<mapsto> JStr ''Done'']"

text \<open>
  Two callers of the tasks read on a cold server. In the first schedule caller 0 runs to
  its return while caller 1 waits for the lock, then caller 1 runs; in \<open>waitRunsOut\<close> the
  wait of caller 1 runs out while caller 0 holds the lock; in \<open>bothTimeOut\<close> the waits of
  both run out, on a server whose lock another execution holds all the time; in
  \<open>evictedBetween\<close> the entry that caller 0 stored leaves the cache before caller 1 gets
  the lock. The fetch function either returns the data or throws.
\<close>

definition fetchReturns :: "spreadsheet \<Rightarrow> (thrown + string) \<times> spreadsheet" where
  "fetchReturns ss = (Inr ''DATA'', ss)"

definition fetchThrows :: "spreadsheet \<Rightarrow> (thrown + string) \<times> spreadsheet" where
  "fetchThrows ss = (Inl (newError ''Service unavailable''), ss)"

definition oneAfterTheOther :: "action list" where
  "oneAfterTheOther =
     [Step 0, Step 1, Step 0, Step 0, Step 0, Step 0, Step 0, Step 1, Step 1, Step 1]"

definition bothFetch :: "action list" where
  "bothFetch = [Step 0, Step 1, Step 0, Step 0, Step 0, Step 0, Step 1, Step 1, Step 1, Step 1]"

definition waitRunsOut :: "action list" where
  "waitRunsOut = [Step 0, Step 1, Step 0, Timeout 1, Step 0, Step 0, Step 0, Step 0]"

text \<open>
  A cell as the fetch function reads it from a sheet is a string or, for a date cell such
  as the timestamps the handlers write with \<open>new Date()\<close>, a \<open>Date\<close>. \<open>JSON.stringify\<close>
  writes a \<open>Date\<close> as its ISO text in quotes and \<open>JSON.parse\<close> reads a text in quotes as a
  string (escape sequences are left out here).
\<close>

datatype cellValue = DateValue string | StringValue string

definition jsonCells :: "cellValue platform" where
  "jsonCells =
     \<lparr>stringify = (\<lambda>v. case v of DateValue d \<Rightarrow> [CHR 0x22] @ d @ [CHR 0x22]
                                | StringValue t \<Rightarrow> [CHR 0x22] @ t @ [CHR 0x22]),
      parse = (\<lambda>t. StringValue (butlast (tl t))), lockFreeAfter = 5,
      otherCacheWrites = (\<lambda>c. c), otherSheetWrites = (\<lambda>ss. ss),
      newDate = JStr ''2024-05-01T10:00:00.000Z'',
      uploadAccountFileToDrive = Inr (JStr ''https://drive.example/file'')\<rparr>"

definition fetchDate :: "spreadsheet \<Rightarrow> (thrown + cellValue) \<times> spreadsheet" where
  "fetchDate ss = (Inr (DateValue ''2024-05-01T10:00:00.000Z''), ss)"

definition bothTimeOut :: "action list" where
  "bothTimeOut = [Step 0, Step 1, Timeout 0, Timeout 1]"

definition lockedServer :: server where
  "lockedServer = coldServer\<lparr>lockHeld := True\<rparr>"

definition evictedBetween :: "action list" where
  "evictedBetween =
     [Step 0, Step 1, Step 0, Step 0, Step 0, Step 0, Step 0, Evict, Step 1, Step 1, Step 1, Step 1, Step 1]"

chapter \<open>Properties\<close>

section \<open>Sync Coordinator\<close>

lemma saving_message_one: "saving_message 1 = ''Saving 1 change...''"
  by (simp add: saving_message_def string_of_int_def string_of_nat.simps digit_char_def)

lemma saving_message_many:
  "1 < n \<Longrightarrow> saving_message n = ''Saving '' @ string_of_int n @ '' changes...''"
  by (simp add: saving_message_def)

text \<open>
  The decimal rendering of the model is the decimal numeral of the number.
\<close>

lemma digit_char_facts:
  assumes "d < 10"
  shows "is_digit (digit_char d)" and "digit_value (digit_char d) = d"
    and "(digit_char d = CHR ''0'') = (d = 0)"
proof -
  from assms have "d = 0 \<or> d = 1 \<or> d = 2 \<or> d = 3 \<or> d = 4 \<or> d = 5 \<or> d = 6 \<or> d = 7 \<or> d = 8 \<or> d = 9"
    by arith
  then show "is_digit (digit_char d)" and "digit_value (digit_char d) = d"
    and "(digit_char d = CHR ''0'') = (d = 0)"
    by (auto simp: digit_char_def is_digit_def digit_value_def)
qed

lemma decimal_value_snoc: "decimal_value (ds @ [c]) = 10 * decimal_value ds + digit_value c"
  by (simp add: decimal_value_def)

lemma string_of_nat_numeral: "is_numeral (string_of_nat n) \<and> decimal_value (string_of_nat n) = n"
proof (induction n rule: string_of_nat.induct)
  case (1 n)
  show ?case
  proof (cases "n < 10")
    case True
    then have "string_of_nat n = [digit_char n]" by (simp add: string_of_nat.simps)
    with digit_char_facts [OF True] show ?thesis
      by (auto simp: is_numeral_def decimal_value_def)
  next
    case False
    then have s: "string_of_nat n = string_of_nat (n div 10) @ [digit_char (n mod 10)]"
      by (simp add: string_of_nat.simps)
    from 1 False have ih: "is_numeral (string_of_nat (n div 10))"
      "decimal_value (string_of_nat (n div 10)) = n div 10" by auto
    have m: "n mod 10 < 10" by simp
    have nz: "string_of_nat (n div 10) \<noteq> ''0''"
    proof
      assume "string_of_nat (n div 10) = ''0''"
      then have "decimal_value (string_of_nat (n div 10)) = 0"
        by (simp add: decimal_value_def digit_value_def)
      with ih(2) False show False by simp
    qed
    have v: "decimal_value (string_of_nat n) = n"
      using ih(2) digit_char_facts(2) [OF m] by (simp add: s decimal_value_snoc)
    have "is_numeral (string_of_nat n)"
      using ih(1) nz digit_char_facts(1) [OF m] by (auto simp: s is_numeral_def)
    with v show ?thesis by simp
  qed
qed

lemma string_of_int_decimal: "is_decimal_of (string_of_int i) i"
  using string_of_nat_numeral [of "nat i"] string_of_nat_numeral [of "nat (- i)"]
  by (auto simp: is_decimal_of_def string_of_int_def)

lemma string_of_int_two: "string_of_int 2 = ''2''"
  by (simp add: string_of_int_def string_of_nat.simps digit_char_def)

text \<open>
  Claim C4. A call \<open>withSyncStatus(action)\<close> first raises the pending counter by one and
  sets the status to syncing, with the message in the singular for a count of 1 and in
  the plural for a greater count, the count written as its decimal numeral. Let \<open>c2\<close> be
  the state when the action settles. If the action resolved, the call resolves, the
  counter is one less than in \<open>c2\<close>, and the status is success (with the message that all
  changes are saved) exactly when the counter is 0, otherwise syncing with the message
  for the new count. If the action rejected, the call rejects with the same value, the
  counter is one less than in \<open>c2\<close>, the status is error and the message is the message
  of the rejection when that is an \<open>Error\<close>, and \<open>Update failed.\<close> when it is another value.
  The displayed collection is not touched by the coordinator.
\<close>

theorem withSyncStatus_contract:
  assumes "action (c\<lparr>syncState := sync_begin (syncState c)\<rparr>) = (r, c2)"
  shows "pending (sync_begin (syncState c)) = pending (syncState c) + 1
       \<and> status (sync_begin (syncState c)) = Syncing
       \<and> (pending (syncState c) + 1 = 1 \<longrightarrow> message (sync_begin (syncState c)) = ''Saving 1 change...'')
       \<and> (pending (syncState c) + 1 > 1 \<longrightarrow>
            message (sync_begin (syncState c)) =
              ''Saving '' @ string_of_int (pending (syncState c) + 1) @ '' changes...'')
       \<and> is_decimal_of (string_of_int (pending (syncState c) + 1)) (pending (syncState c) + 1)
       \<and> (\<forall>v. r = Inr v \<longrightarrow>
            fst (withSyncStatus action c) = Inr ()
          \<and> pending (syncState (snd (withSyncStatus action c))) = pending (syncState c2) - 1
          \<and> (status (syncState (snd (withSyncStatus action c))) = Success
               \<longleftrightarrow> pending (syncState c2) - 1 = 0)
          \<and> (pending (syncState c2) - 1 = 0 \<longrightarrow>
               message (syncState (snd (withSyncStatus action c))) = ''All changes saved.'')
          \<and> (pending (syncState c2) - 1 \<noteq> 0 \<longrightarrow>
               status (syncState (snd (withSyncStatus action c))) = Syncing
             \<and> message (syncState (snd (withSyncStatus action c))) =
                 saving_message (pending (syncState c2) - 1)
             \<and> message (syncState (snd (withSyncStatus action c))) =
                 ''Saving '' @ string_of_int (pending (syncState c2) - 1) @
                 (if pending (syncState c2) - 1 > 1 then '' changes...'' else '' change...'')
             \<and> is_decimal_of (string_of_int (pending (syncState c2) - 1)) (pending (syncState c2) - 1)))
       \<and> (\<forall>err. r = Inl err \<longrightarrow>
            fst (withSyncStatus action c) = Inl err
          \<and> pending (syncState (snd (withSyncStatus action c))) = pending (syncState c2) - 1
          \<and> status (syncState (snd (withSyncStatus action c))) = Error
          \<and> message (syncState (snd (withSyncStatus action c))) = errorMessage err
          \<and> (\<forall>name m. err = ErrorObj name m \<longrightarrow>
                message (syncState (snd (withSyncStatus action c))) = m)
          \<and> (err = OtherThrown \<longrightarrow>
                message (syncState (snd (withSyncStatus action c))) = ''Update failed.''))
       \<and> records (snd (withSyncStatus action c)) = records c2"
proof -
  have b: "message (sync_begin (syncState c)) = saving_message (pending (syncState c) + 1)"
    by (simp add: sync_begin_def)
  have one: "pending (syncState c) + 1 = 1 \<longrightarrow> message (sync_begin (syncState c)) = ''Saving 1 change...''"
    using saving_message_one b by simp
  have many: "pending (syncState c) + 1 > 1 \<longrightarrow>
            message (sync_begin (syncState c)) =
              ''Saving '' @ string_of_int (pending (syncState c) + 1) @ '' changes...''"
    using saving_message_many b by simp
  have dec: "is_decimal_of (string_of_int (pending (syncState c) + 1)) (pending (syncState c) + 1)"
    by (rule string_of_int_decimal)
  have res: "\<forall>v. r = Inr v \<longrightarrow>
            fst (withSyncStatus action c) = Inr ()
          \<and> pending (syncState (snd (withSyncStatus action c))) = pending (syncState c2) - 1
          \<and> (status (syncState (snd (withSyncStatus action c))) = Success
               \<longleftrightarrow> pending (syncState c2) - 1 = 0)
          \<and> (pending (syncState c2) - 1 = 0 \<longrightarrow>
               message (syncState (snd (withSyncStatus action c))) = ''All changes saved.'')
          \<and> (pending (syncState c2) - 1 \<noteq> 0 \<longrightarrow>
               status (syncState (snd (withSyncStatus action c))) = Syncing
             \<and> message (syncState (snd (withSyncStatus action c))) =
                 saving_message (pending (syncState c2) - 1)
             \<and> message (syncState (snd (withSyncStatus action c))) =
                 ''Saving '' @ string_of_int (pending (syncState c2) - 1) @
                 (if pending (syncState c2) - 1 > 1 then '' changes...'' else '' change...'')
             \<and> is_decimal_of (string_of_int (pending (syncState c2) - 1)) (pending (syncState c2) - 1))"
    using assms string_of_int_decimal [of "pending (syncState c2) - 1"]
    by (simp add: withSyncStatus_def sync_resolved_def saving_message_def Let_def)
  have rej: "\<forall>err. r = Inl err \<longrightarrow>
            fst (withSyncStatus action c) = Inl err
          \<and> pending (syncState (snd (withSyncStatus action c))) = pending (syncState c2) - 1
          \<and> status (syncState (snd (withSyncStatus action c))) = Error
          \<and> message (syncState (snd (withSyncStatus action c))) = errorMessage err
          \<and> (\<forall>name m. err = ErrorObj name m \<longrightarrow>
                message (syncState (snd (withSyncStatus action c))) = m)
          \<and> (err = OtherThrown \<longrightarrow>
                message (syncState (snd (withSyncStatus action c))) = ''Update failed.'')"
    using assms by (simp add: withSyncStatus_def sync_rejected_def errorMessage_def Let_def)
  have recs: "records (snd (withSyncStatus action c)) = records c2"
    using assms by (cases r) (simp_all add: withSyncStatus_def Let_def)
  have p: "pending (sync_begin (syncState c)) = pending (syncState c) + 1"
    and st: "status (sync_begin (syncState c)) = Syncing"
    by (simp_all add: sync_begin_def)
  from p st one many dec res rej recs show ?thesis by blast
qed

text \<open>
  The contract at calls from the initial state: an action that resolves; actions that
  reject with \<open>new Error('Failed to fetch')\<close>, with \<open>new Error('Quota exceeded')\<close> and
  with a value that is no \<open>Error\<close>; and the messages for two pending calls.
\<close>

theorem withSyncStatus_contract_witness:
  "withSyncStatus (\<lambda>c. (Inr (), c)) (initialClient [acc1]) =
     (Inr (), \<lparr>records = [acc1],
               syncState = \<lparr>pending = 0, status = Success, message = ''All changes saved.''\<rparr>,
               loadError = None\<rparr>)
   \<and> message (sync_begin (syncState (initialClient [acc1]))) = ''Saving 1 change...''
   \<and> message (sync_begin (sync_begin (syncState (initialClient [acc1])))) = ''Saving 2 changes...''
   \<and> fst (withSyncStatus (\<lambda>c. (Inl (newError ''Failed to fetch''), c)) (initialClient [acc1])) =
       Inl (newError ''Failed to fetch'')
   \<and> syncState (snd (withSyncStatus (\<lambda>c. (Inl (newError ''Failed to fetch''), c)) (initialClient [acc1]))) =
       \<lparr>pending = 0, status = Error, message = ''Failed to fetch''\<rparr>
   \<and> syncState (snd (withSyncStatus (\<lambda>c. (Inl (newError ''Quota exceeded''), c)) (initialClient [acc1]))) =
       \<lparr>pending = 0, status = Error, message = ''Quota exceeded''\<rparr>
   \<and> syncState (snd (withSyncStatus (\<lambda>c. (Inl OtherThrown, c)) (initialClient [acc1]))) =
       \<lparr>pending = 0, status = Error, message = ''Update failed.''\<rparr>
   \<and> syncState (snd (withSyncStatus (\<lambda>c. (Inr (), c))
        ((initialClient [acc1])\<lparr>syncState := sync_begin (sync_begin (syncState (initialClient [acc1])))\<rparr>))) =
       \<lparr>pending = 2, status = Syncing, message = ''Saving 2 changes...''\<rparr>"
proof -
  let ?c = "initialClient [acc1]"
  let ?c1 = "?c\<lparr>syncState := sync_begin (syncState ?c)\<rparr>"
  let ?c2 = "?c\<lparr>syncState := sync_begin (sync_begin (syncState ?c))\<rparr>"
  let ?c3 = "?c\<lparr>syncState := sync_begin (sync_begin (sync_begin (syncState ?c)))\<rparr>"
  have two: "saving_message 2 = ''Saving 2 changes...''"
    by (simp add: saving_message_def string_of_int_two)
  show ?thesis
    using withSyncStatus_contract [of "\<lambda>c. (Inr (), c)" ?c "Inr ()" ?c1]
          withSyncStatus_contract [of "\<lambda>c. (Inl (newError ''Failed to fetch''), c)" ?c
                                      "Inl (newError ''Failed to fetch'')" ?c1]
          withSyncStatus_contract [of "\<lambda>c. (Inl (newError ''Quota exceeded''), c)" ?c
                                      "Inl (newError ''Quota exceeded'')" ?c1]
          withSyncStatus_contract [of "\<lambda>c. (Inl OtherThrown, c)" ?c "Inl OtherThrown" ?c1]
          withSyncStatus_contract [of "\<lambda>c. (Inr (), c)" ?c2 "Inr ()" ?c3]
    by (simp add: withSyncStatus_def initialClient_def initialSyncState_def sync_begin_def
        sync_resolved_def sync_rejected_def errorMessage_def newError_def saving_message_one two Let_def)
qed

lemma pending_run_events:
  "complete_from k evs \<Longrightarrow> pending (run_events evs s) = pending s - int k"
proof (induction k evs arbitrary: s rule: complete_from.induct)
  case (1 k)
  then show ?case by (simp add: run_events_def)
next
  case (2 k evs)
  then show ?case by (simp add: run_events_def sync_begin_def)
next
  case (3 k evs)
  then show ?case by (auto simp add: run_events_def sync_resolved_def Let_def)
next
  case (4 k err evs)
  then show ?case by (auto simp add: run_events_def sync_rejected_def)
next
  case (5 k evs)
  then show ?case by (simp add: run_events_def sync_expired_def)
qed

lemma complete_from_last:
  "complete_from k evs \<Longrightarrow> evs \<noteq> [] \<Longrightarrow> last evs \<noteq> Begin"
proof (induction k evs rule: complete_from.induct)
  case (2 k evs)
  then show ?case by (cases evs) auto
next
  case (3 k evs)
  then show ?case by (cases evs) auto
next
  case (4 k err evs)
  then show ?case by (cases evs) auto
next
  case (5 k evs)
  then show ?case by (cases evs) auto
qed simp

lemma run_events_snoc: "run_events (evs @ [ev]) s = sync_step (run_events evs s) ev"
  by (simp add: run_events_def)

lemma status_after_settle:
  "ev \<noteq> Begin \<Longrightarrow> pending (sync_step s ev) = 0 \<Longrightarrow>
     status (sync_step s ev) = (if is_reject ev then Error else if ev = Resolve then Success else Idle)"
  by (cases ev) (auto simp: sync_resolved_def sync_rejected_def sync_expired_def Let_def split: if_splits)

lemma is_reject_rejections: "evs \<noteq> [] \<Longrightarrow> is_reject (last evs) \<Longrightarrow> 0 < rejections evs"
  by (induction evs) (auto simp: rejections_def split: if_splits)

text \<open>
  Claim C5, as the code has it. After any complete schedule of calls that starts with
  no call pending, the pending counter is 0. The terminal status is the one written by
  the call that settled last: error if and only if that call rejected, success if and
  only if it resolved; the timer, when it fires after the last call has settled, makes
  it idle. So a terminal status of error implies that some call rejected, but not the
  other way round.
\<close>

theorem sync_terminal_state:
  assumes "complete_from 0 evs" and "pending s = 0"
  shows "pending (run_events evs s) = 0
       \<and> (evs \<noteq> [] \<longrightarrow>
            (status (run_events evs s) = Error \<longleftrightarrow> is_reject (last evs))
          \<and> (status (run_events evs s) = Success \<longleftrightarrow> last evs = Resolve)
          \<and> (status (run_events evs s) = Idle \<longleftrightarrow> last evs = Expire))
       \<and> (status (run_events evs s) = Error \<and> evs \<noteq> [] \<longrightarrow> 0 < rejections evs)"
proof -
  have p: "pending (run_events evs s) = 0"
    using pending_run_events [OF assms(1), of s] assms(2) by simp
  have st: "status (run_events evs s) =
              (if is_reject (last evs) then Error else if last evs = Resolve then Success else Idle)"
    if ne: "evs \<noteq> []"
  proof -
    from ne have split: "evs = butlast evs @ [last evs]" by simp
    have nb: "last evs \<noteq> Begin" using complete_from_last [OF assms(1) ne] .
    have "run_events evs s = sync_step (run_events (butlast evs) s) (last evs)"
      using run_events_snoc [of "butlast evs" "last evs" s] split by simp
    then show ?thesis using status_after_settle [OF nb] p by simp
  qed
  have kind: "is_reject (last evs) \<or> last evs = Resolve \<or> last evs = Expire" if ne: "evs \<noteq> []"
    using complete_from_last [OF assms(1) ne] by (cases "last evs") auto
  have rj: "\<not> (is_reject ev \<and> ev = Resolve)" "\<not> (is_reject ev \<and> ev = Expire)" for ev
    by auto
  show ?thesis using p st kind rj is_reject_rejections by auto
qed

text \<open>
  Two calls, the first resolves and the second rejects last: the terminal status is
  error. One call that resolves, and the timer after it: the status is idle again.
\<close>

theorem sync_terminal_state_witness:
  "pending (run_events [Begin, Begin, Resolve, Reject OtherThrown] initialSyncState) = 0
   \<and> status (run_events [Begin, Begin, Resolve, Reject OtherThrown] initialSyncState) = Error
   \<and> 0 < rejections [Begin, Begin, Resolve, Reject OtherThrown]
   \<and> pending (run_events [Begin, Resolve, Expire] initialSyncState) = 0
   \<and> status (run_events [Begin, Resolve, Expire] initialSyncState) = Idle"
proof -
  have c: "complete_from 0 [Begin, Begin, Resolve, Reject OtherThrown]" by simp
  have c2: "complete_from 0 [Begin, Resolve, Expire]" by simp
  have p: "pending initialSyncState = 0" by (simp add: initialSyncState_def)
  show ?thesis using sync_terminal_state [OF c p] sync_terminal_state [OF c2 p] by simp
qed

text \<open>
  Claim C5 as stated fails: of two concurrent calls one rejects (M = 1) and the other
  resolves afterwards; all calls have settled, the counter is 0, and the terminal status
  is success, not error.
\<close>

theorem sync_terminal_status_counterexample:
  "complete_from 0 [Begin, Begin, Reject (newError ''Failed to fetch''), Resolve]
   \<and> calls [Begin, Begin, Reject (newError ''Failed to fetch''), Resolve] = 2
   \<and> rejections [Begin, Begin, Reject (newError ''Failed to fetch''), Resolve] = 1
   \<and> pending (run_events [Begin, Begin, Reject (newError ''Failed to fetch''), Resolve] initialSyncState) = 0
   \<and> status (run_events [Begin, Begin, Reject (newError ''Failed to fetch''), Resolve] initialSyncState)
       = Success"
  by (simp add: calls_def rejections_def run_events_def initialSyncState_def
      sync_begin_def sync_rejected_def sync_resolved_def Let_def)

section \<open>Optimistic State Manager\<close>

lemma revertOnFailure_rejected:
  assumes "isl (fst (action (c\<lparr>syncState := sync_begin (syncState c)\<rparr>)))"
  shows "records (revertOnFailure original action c) = original"
proof (cases "action (c\<lparr>syncState := sync_begin (syncState c)\<rparr>)")
  case (Pair r c2)
  with assms obtain err where "r = Inl err" by (cases r) auto
  with Pair show ?thesis
    by (simp add: revertOnFailure_def withSyncStatus_def Let_def)
qed

lemma then_await_rejected: "isl (fst (a c)) \<Longrightarrow> isl (fst (then_await a b c))"
  by (cases "a c") (auto simp: then_await_def split: sum.splits)

lemma revert_when_call_rejects:
  "always_rejects call \<Longrightarrow> records (revertOnFailure original (then_await call refetchData) c) = original"
  by (rule revertOnFailure_rejected, rule then_await_rejected) (simp add: always_rejects_def)

text \<open>
  Claim C6. In each of the five views, when the update or status change the handler
  submits fails, the displayed collection after the handler is exactly the snapshot the
  handler copied before its speculative edit, whatever the collection, the edit and the
  state were. (\<open>CSHubView.handleStatusChange\<close> submits nothing when the ticket is not in
  its snapshot.)
\<close>

theorem failed_update_restores_snapshot:
  assumes "\<And>u. always_rejects (update u)"
  shows "records (AccountsView_handleSave snapshot (Some editing) dataToSave update add refetchData c) = snapshot
       \<and> records (AccountsView_handleStatusChange snapshot record newStatus update refetchData c) = snapshot
       \<and> records (FinancingLedgerView_handleSave snapshot (Some editing) dataToSave update add refetchData c)
           = snapshot
       \<and> records (FinancingLedgerView_handleStatusChange snapshot record newStatus update refetchData c)
           = snapshot
       \<and> records (TasksView_handleSave snapshot (Some editing) dataToSave update add refetchData c) = snapshot
       \<and> records (TasksView_handleQuickUpdate snapshot nowISO record field newStatus update refetchData c)
           = snapshot
       \<and> records (DirectoryView_handleSave snapshot (Some editing) dataToSave update add refetchData c) = snapshot
       \<and> records (DirectoryView_handleStatusChange snapshot record newStatus update refetchData c) = snapshot
       \<and> records (CSHubView_handleSave snapshot (Some editing) dataToSave mapFormToRecord update add
                    refetchData c) = snapshot
       \<and> (find (\<lambda>r. getProp r ''TicketID'' = JStr ticketId) snapshot \<noteq> None \<longrightarrow>
            records (CSHubView_handleStatusChange snapshot ticketId newStatus formDataOf update refetchData c)
              = snapshot)"
  using assms
  by (auto simp: AccountsView_handleSave_def AccountsView_handleStatusChange_def
      FinancingLedgerView_handleSave_def FinancingLedgerView_handleStatusChange_def
      TasksView_handleSave_def TasksView_handleQuickUpdate_def
      DirectoryView_handleSave_def DirectoryView_handleStatusChange_def
      CSHubView_handleSave_def CSHubView_handleStatusChange_def Let_def revert_when_call_rejects)

text \<open>
  Scenario B of the specification on the accounts: the status of \<open>acc1\<close> is changed to
  Closed, the network call fails, and the two accounts are displayed as before.
\<close>

theorem failed_update_restores_snapshot_witness:
  "records (AccountsView_handleStatusChange [acc1, acc2] acc1 ''Closed''
      (\<lambda>u c. (Inl (newError ''Failed to fetch''), c)) (fetchData (\<lambda>c. (Inr [], c)))
      (initialClient [acc1, acc2])) = [acc1, acc2]"
  using failed_update_restores_snapshot [of "\<lambda>u c. (Inl (newError ''Failed to fetch''), c)"]
  by (simp add: always_rejects_def)

text \<open>
  With the refetch function that catches its failure (\<open>fetchData_caught\<close>), a delete that
  the server confirmed leaves the record out of the display when the refetch fails.
\<close>

lemma delete_with_caught_refetch:
  assumes "\<And>c. deleteCall idv c = (Inr (), c)" and "\<And>c. \<exists>err. api_get c = (Inl err, c)"
  shows "records (revertOnFailure original
            (then_await (deleteCall idv) (fetchData_caught label api_get))
            (c\<lparr>records := removeById idKey idv (records c)\<rparr>)) = removeById idKey idv (records c)"
proof -
  let ?c1 = "c\<lparr>records := removeById idKey idv (records c), syncState := sync_begin (syncState c)\<rparr>"
  obtain err where "api_get ?c1 = (Inl err, ?c1)" using assms(2) by blast
  then show ?thesis
    by (simp add: revertOnFailure_def withSyncStatus_def then_await_def fetchData_caught_def assms(1) Let_def)
qed

text \<open>
  Claim C7 at a failing input. The financing records 42 and 7 are displayed; record 42
  is deleted, the server confirms the delete, and the refetch that follows fails. With
  the refetch function of the Dashboard that loads views on demand (\<open>fetchData\<close>) the
  failure rejects the whole action, the handler reverts to its snapshot, and record 42 is
  displayed again. The same holds for \<open>AccountsView.handleDelete\<close>.
\<close>

theorem delete_reverted_when_refetch_fails:
  "records (FinancingLedgerView_handleDelete [fin42, fin7] (Some fin42)
      (\<lambda>idv c. (Inr (), c)) (fetchData (\<lambda>c. (Inl (newError ''Failed to fetch''), c)))
      (initialClient [fin42, fin7])) = [fin42, fin7]
   \<and> getProp fin42 ''finance_id'' = JStr ''42''
   \<and> records (AccountsView_handleDelete [acc1, acc2] True acc1
      (\<lambda>idv c. (Inr (), c)) (fetchData (\<lambda>c. (Inl (newError ''Failed to fetch''), c)))
      (initialClient [acc1, acc2])) = [acc1, acc2]
   \<and> records (FinancingLedgerView_handleDelete [fin42, fin7] (Some fin42)
      (\<lambda>idv c. (Inr (), c)) (fetchData_caught ''Financing'' (\<lambda>c. (Inl (newError ''Failed to fetch''), c)))
      (initialClient [fin42, fin7])) = [fin7]"
  by (simp add: FinancingLedgerView_handleDelete_def AccountsView_handleDelete_def revertOnFailure_def
      withSyncStatus_def then_await_def fetchData_def fetchData_caught_def Let_def removeById_def
      getProp_def fin42_def fin7_def initialClient_def)

section \<open>Read-through cache\<close>

lemma waitLock_granted:
  "lockFreeAfter p \<le> ms \<Longrightarrow>
   waitLock p ms s =
     (Inr (), s\<lparr>cache := otherCacheWrites p (cache s), sheets := otherSheetWrites p (sheets s),
                 clock := clock s + lockFreeAfter p, effects := effects s @ [WaitLock ms],
                 lockHeld := True\<rparr>)"
  by (simp add: waitLock_def Let_def min_def)

text \<open>
  Claim C3. \<open>getDataWithCache(key, f)\<close>: (1) when an unexpired entry for the key is
  present it returns the parsed entry, asks for no lock, invokes no fetch and leaves the
  cache as it is; (2) on a miss it asks for the lock once, and waits no longer than
  30000 ms; (3) when the lock is granted it holds the lock, and has released it when it
  returns; if an entry is present at the re-check it returns that entry without a fetch;
  otherwise, when \<open>f\<close> returns \<open>data\<close>, it has invoked \<open>f\<close> exactly once, returns \<open>data\<close>, and
  the cache holds the serialised \<open>data\<close> under the key, expiring 300 seconds after the
  time of the store.
\<close>

theorem getDataWithCache_algorithm:
  "(\<forall>v. cache_get s key = Some v \<longrightarrow>
        fst (getDataWithCache p key f s) = Inr (parse p v)
      \<and> lockCalls (snd (getDataWithCache p key f s)) = lockCalls s
      \<and> fetchCount key (snd (getDataWithCache p key f s)) = fetchCount key s
      \<and> cache (snd (getDataWithCache p key f s)) = cache s)
  \<and> (cache_get s key = None \<longrightarrow>
        lockCalls (snd (getDataWithCache p key f s)) = lockCalls s + 1
      \<and> clock (snd (getDataWithCache p key f s)) \<le> clock s + 30000)
  \<and> (cache_get s key = None \<and> lockFreeAfter p \<le> 30000 \<longrightarrow>
        lockHeld (snd (waitLock p 30000 s)) \<and> \<not> lockHeld (snd (getDataWithCache p key f s))
      \<and> (\<forall>v. cache_get (snd (waitLock p 30000 s)) key = Some v \<longrightarrow>
             fst (getDataWithCache p key f s) = Inr (parse p v)
           \<and> fetchCount key (snd (getDataWithCache p key f s)) = fetchCount key s
           \<and> cache (snd (getDataWithCache p key f s)) = cache (snd (waitLock p 30000 s)))
      \<and> (\<forall>data ss. cache_get (snd (waitLock p 30000 s)) key = None
                   \<and> f (sheets (snd (waitLock p 30000 s))) = (Inr data, ss) \<longrightarrow>
             fst (getDataWithCache p key f s) = Inr data
           \<and> fetchCount key (snd (getDataWithCache p key f s)) = fetchCount key s + 1
           \<and> cache (snd (getDataWithCache p key f s)) =
               (cache (snd (waitLock p 30000 s)))
                 (key \<mapsto> (stringify p data, clock (snd (waitLock p 30000 s)) + 300 * 1000))
           \<and> cache_get (snd (getDataWithCache p key f s)) key = Some (stringify p data)))"
proof -
  have a: "\<forall>v. cache_get s key = Some v \<longrightarrow>
        fst (getDataWithCache p key f s) = Inr (parse p v)
      \<and> lockCalls (snd (getDataWithCache p key f s)) = lockCalls s
      \<and> fetchCount key (snd (getDataWithCache p key f s)) = fetchCount key s
      \<and> cache (snd (getDataWithCache p key f s)) = cache s"
    by (simp add: getDataWithCache_def Logger_log_def lockCalls_def fetchCount_def)
  have b: "cache_get s key = None \<longrightarrow>
        lockCalls (snd (getDataWithCache p key f s)) = lockCalls s + 1
      \<and> clock (snd (getDataWithCache p key f s)) \<le> clock s + 30000"
    by (auto simp add: getDataWithCache_def getDataWithCache_locked_def waitLock_def Let_def
        Logger_log_def lockCalls_def releaseLock_def cache_put_def
        split: option.splits prod.splits sum.splits)
  have c: "cache_get s key = None \<and> lockFreeAfter p \<le> 30000 \<longrightarrow>
        lockHeld (snd (waitLock p 30000 s)) \<and> \<not> lockHeld (snd (getDataWithCache p key f s))
      \<and> (\<forall>v. cache_get (snd (waitLock p 30000 s)) key = Some v \<longrightarrow>
             fst (getDataWithCache p key f s) = Inr (parse p v)
           \<and> fetchCount key (snd (getDataWithCache p key f s)) = fetchCount key s
           \<and> cache (snd (getDataWithCache p key f s)) = cache (snd (waitLock p 30000 s)))
      \<and> (\<forall>data ss. cache_get (snd (waitLock p 30000 s)) key = None
                   \<and> f (sheets (snd (waitLock p 30000 s))) = (Inr data, ss) \<longrightarrow>
             fst (getDataWithCache p key f s) = Inr data
           \<and> fetchCount key (snd (getDataWithCache p key f s)) = fetchCount key s + 1
           \<and> cache (snd (getDataWithCache p key f s)) =
               (cache (snd (waitLock p 30000 s)))
                 (key \<mapsto> (stringify p data, clock (snd (waitLock p 30000 s)) + 300 * 1000))
           \<and> cache_get (snd (getDataWithCache p key f s)) key = Some (stringify p data))"
    by (auto simp add: getDataWithCache_def getDataWithCache_locked_def waitLock_granted Let_def
        Logger_log_def fetchCount_def releaseLock_def cache_put_def cache_get_def
        CACHE_EXPIRATION_SECONDS_def split: option.splits prod.splits sum.splits)
  show ?thesis using a b c by blast
qed

text \<open>
  A cold read of the tasks on the quiet platform: one lock call, one fetch, the data
  returned and cached until 300005 ms; and the read that follows is served from the
  cache without lock or fetch.
\<close>

theorem getDataWithCache_algorithm_witness:
  "getDataWithCache quietPlatform ''Tasks'' (\<lambda>ss. (Inr ''DATA'', ss)) coldServer =
     (Inr ''DATA'',
      \<lparr>cache = [''Tasks'' \<mapsto> (''DATA'', 300005)], sheets = Map.empty, clock = 5, lockHeld = False,
       effects = [WaitLock 30000, Log ''Cache MISS for: Tasks'', Fetch ''Tasks'', ReleaseLock]\<rparr>)
   \<and> fetchCount ''Tasks'' (snd (getDataWithCache quietPlatform ''Tasks'' (\<lambda>ss. (Inr ''DATA'', ss)) coldServer)) = 1
   \<and> lockCalls (snd (getDataWithCache quietPlatform ''Tasks'' (\<lambda>ss. (Inr ''DATA'', ss)) coldServer)) = 1
   \<and> fst (getDataWithCache quietPlatform ''Tasks'' (\<lambda>ss. (Inr ''OTHER'', ss))
           (snd (getDataWithCache quietPlatform ''Tasks'' (\<lambda>ss. (Inr ''DATA'', ss)) coldServer))) = Inr ''DATA''
   \<and> fetchCount ''Tasks'' (snd (getDataWithCache quietPlatform ''Tasks'' (\<lambda>ss. (Inr ''OTHER'', ss))
           (snd (getDataWithCache quietPlatform ''Tasks'' (\<lambda>ss. (Inr ''DATA'', ss)) coldServer)))) = 1"
proof -
  have first: "getDataWithCache quietPlatform ''Tasks'' (\<lambda>ss. (Inr ''DATA'', ss)) coldServer =
     (Inr ''DATA'',
      \<lparr>cache = [''Tasks'' \<mapsto> (''DATA'', 300005)], sheets = Map.empty, clock = 5, lockHeld = False,
       effects = [WaitLock 30000, Log ''Cache MISS for: Tasks'', Fetch ''Tasks'', ReleaseLock]\<rparr>)"
    by (simp add: getDataWithCache_def getDataWithCache_locked_def waitLock_def quietPlatform_def
        coldServer_def cache_get_def cache_put_def releaseLock_def Logger_log_def Let_def
        CACHE_EXPIRATION_SECONDS_def)
  have second: "getDataWithCache quietPlatform ''Tasks'' (\<lambda>ss. (Inr ''OTHER'', ss))
      \<lparr>cache = [''Tasks'' \<mapsto> (''DATA'', 300005)], sheets = Map.empty, clock = 5, lockHeld = False,
       effects = [WaitLock 30000, Log ''Cache MISS for: Tasks'', Fetch ''Tasks'', ReleaseLock]\<rparr> =
     (Inr ''DATA'',
      \<lparr>cache = [''Tasks'' \<mapsto> (''DATA'', 300005)], sheets = Map.empty, clock = 5, lockHeld = False,
       effects = [WaitLock 30000, Log ''Cache MISS for: Tasks'', Fetch ''Tasks'', ReleaseLock,
                  Log ''Cache HIT for: Tasks'']\<rparr>)"
    by (simp add: getDataWithCache_def quietPlatform_def cache_get_def Logger_log_def)
  show ?thesis
    using getDataWithCache_algorithm [of coldServer "''Tasks''" quietPlatform "\<lambda>ss. (Inr ''DATA'', ss)"]
          getDataWithCache_algorithm [of "snd (getDataWithCache quietPlatform ''Tasks''
              (\<lambda>ss. (Inr ''DATA'', ss)) coldServer)" "''Tasks''" quietPlatform "\<lambda>ss. (Inr ''OTHER'', ss)"]
    by (simp add: first second fetchCount_def lockCalls_def)
qed

lemma getDataWithCache_throws:
  assumes "cache_get s key = None" and "lockFreeAfter p \<le> 30000"
      and "cache_get (snd (waitLock p 30000 s)) key = None"
      and "f (sheets (snd (waitLock p 30000 s))) = (Inl err, ss)"
  shows "getDataWithCache p key f s =
          (Inl err, s\<lparr>cache := otherCacheWrites p (cache s), sheets := ss,
                 clock := clock s + lockFreeAfter p,
                 effects := effects s @ [WaitLock 30000, Log (''Cache MISS for: '' @ key), Fetch key, ReleaseLock],
                 lockHeld := False\<rparr>)"
  using assms
  by (simp add: getDataWithCache_def getDataWithCache_locked_def waitLock_granted Let_def
        Logger_log_def releaseLock_def)

text \<open>
  Claim C8. When the fetch function throws inside \<open>getDataWithCache\<close> (a miss, the lock
  granted, still a miss at the re-check), the call throws the same error, the lock has
  been released (the last effect is the release), and the cache is as it was when the
  lock was obtained: this execution wrote no entry. In \<open>doGet\<close> the error becomes the
  response with status error and the error text as message, without data.
\<close>

theorem fetch_error_propagates:
  assumes miss: "cache_get s key = None"
      and granted: "lockFreeAfter p \<le> 30000"
      and still: "cache_get (snd (waitLock p 30000 s)) key = None"
      and throws: "f (sheets (snd (waitLock p 30000 s))) = (Inl err, ss)"
  shows "fst (getDataWithCache p key f s) = Inl err
       \<and> \<not> lockHeld (snd (getDataWithCache p key f s))
       \<and> last (effects (snd (getDataWithCache p key f s))) = ReleaseLock
       \<and> cache (snd (getDataWithCache p key f s)) = cache (snd (waitLock p 30000 s))
       \<and> cache (snd (waitLock p 30000 s)) = otherCacheWrites p (cache s)
       \<and> (\<forall>e. is_data_action (parameter e ''action'') \<and> key = sheetNameOf (parameter e ''action'')
               \<and> f = fetchFunction key \<longrightarrow>
            resp_status (fst (doGet p e s)) = ''error''
          \<and> resp_message (fst (doGet p e s)) = Some (error_toString err)
          \<and> resp_data (fst (doGet p e s)) = None
          \<and> cache (snd (doGet p e s)) = cache (snd (waitLock p 30000 s))
          \<and> \<not> lockHeld (snd (doGet p e s)))"
proof -
  note g = getDataWithCache_throws [where f = f, OF assms]
  have w: "cache (snd (waitLock p 30000 s)) = otherCacheWrites p (cache s)"
    using granted by (simp add: waitLock_granted)
  have 1: "fst (getDataWithCache p key f s) = Inl err
       \<and> \<not> lockHeld (snd (getDataWithCache p key f s))
       \<and> last (effects (snd (getDataWithCache p key f s))) = ReleaseLock
       \<and> cache (snd (getDataWithCache p key f s)) = cache (snd (waitLock p 30000 s))"
    by (simp add: g w)
  have 2: "resp_status (fst (doGet p e s)) = ''error''
          \<and> resp_message (fst (doGet p e s)) = Some (error_toString err)
          \<and> resp_data (fst (doGet p e s)) = None
          \<and> cache (snd (doGet p e s)) = cache (snd (waitLock p 30000 s))
          \<and> \<not> lockHeld (snd (doGet p e s))"
    if "is_data_action (parameter e ''action'')" "key = sheetNameOf (parameter e ''action'')"
       "f = fetchFunction key" for e
    using that g
    by (simp add: doGet_def doGet_try_def is_data_action_def Let_def error_response_def Logger_log_def w)
  show ?thesis using 1 2 w by blast
qed

text \<open>
  A read of the products from a sheet that lacks the Category and Sub-Category columns:
  the fetch function throws, the response is an error, nothing is cached and the lock
  is free.
\<close>

theorem fetch_error_propagates_witness:
  "resp_status (fst (doGet readPlatform [''action'' \<mapsto> ''getProducts''] productsServer)) = ''error''
   \<and> resp_message (fst (doGet readPlatform [''action'' \<mapsto> ''getProducts''] productsServer)) =
       Some (error_toString missingColumns)
   \<and> cache (snd (doGet readPlatform [''action'' \<mapsto> ''getProducts''] productsServer)) = Map.empty
   \<and> \<not> lockHeld (snd (doGet readPlatform [''action'' \<mapsto> ''getProducts''] productsServer))
   \<and> last (effects (snd (getDataWithCache readPlatform SHEET_products (fetchFunction SHEET_products)
        productsServer))) = ReleaseLock"
proof -
  let ?e = "[''action'' \<mapsto> ''getProducts'']"
  have action: "parameter ?e ''action'' = JStr ''getProducts''"
    by (simp add: parameter_def)
  have miss: "cache_get productsServer SHEET_products = None"
    by (simp add: cache_get_def productsServer_def coldServer_def)
  have granted: "lockFreeAfter readPlatform \<le> 30000"
    by (simp add: readPlatform_def)
  have waited: "snd (waitLock readPlatform 30000 productsServer) =
      productsServer\<lparr>clock := 5, effects := [WaitLock 30000], lockHeld := True\<rparr>"
    by (simp add: waitLock_def readPlatform_def productsServer_def coldServer_def Let_def)
  have still: "cache_get (snd (waitLock readPlatform 30000 productsServer)) SHEET_products = None"
    unfolding waited by (simp add: cache_get_def productsServer_def coldServer_def)
  have throws: "fetchFunction SHEET_products (sheets (snd (waitLock readPlatform 30000 productsServer))) =
      (Inl missingColumns, [SHEET_products \<mapsto> [[JStr ''Items'', JStr ''Colors'']]])"
    unfolding waited
    by (simp add: fetchFunction_def productsServer_def coldServer_def getSheet_def getValues_def
        SHEET_products_def SHEET_customerService_def desiredHeaders_def join_def missingColumns_def Let_def)
  have key: "SHEET_products = sheetNameOf (parameter ?e ''action'')"
    by (simp add: action sheetNameOf_def)
  have data: "is_data_action (parameter ?e ''action'')"
    by (simp add: action is_data_action_def)
  have unwritten: "cache (snd (waitLock readPlatform 30000 productsServer)) = Map.empty"
    unfolding waited by (simp add: productsServer_def coldServer_def)
  show ?thesis
    using fetch_error_propagates [where f = "fetchFunction SHEET_products", OF miss granted still throws]
          key data unwritten
    by auto
qed

section \<open>Tabular responses\<close>



text \<open>
  On headers other than \<open>__proto__\<close> this is the conversion the script itself applies to
  the rows of the Customer Service Hub.
\<close>

lemma recordObject_fieldsOf:
  assumes "''__proto__'' \<notin> js_string ` set hs"
  shows "recordObject hs row = fieldsOf hs row"
proof -
  have "foldl (\<lambda>ob (index, header).
                 if js_string header = ''__proto__'' then ob else ob(js_string header \<mapsto> elemAt row index))
              m (enumerate n hs)
        = foldl (\<lambda>r (index, header). r(js_string header \<mapsto> elemAt row index)) m (enumerate n hs)"
    for m n
    using assms by (induction hs arbitrary: m n) auto
  then show ?thesis by (simp add: recordObject_def fieldsOf_def)
qed




section \<open>Invalidation on writes\<close>

lemma trim_ticket [simp]: "trim ''TICKET-1'' = ''TICKET-1''" "trim ''TICKET-404'' = ''TICKET-404''"
  by (simp_all add: trim_def is_space_def)

text \<open>
  \<open>doPost\<close> clears the cache entry of the sheet only for a response with status success:
  whatever the handler does, a response with another status, or an error thrown by the
  handler, leaves the cache as it was; and after a handler that reports success the
  entry of its sheet is gone.
\<close>

lemma doPost_keeps_cache_unless_success:
  assumes "resp_status (fst (doPost action formType handler s)) \<noteq> ''success''"
  shows "cache (snd (doPost action formType handler s)) = cache s"
  using assms
  by (auto simp: doPost_def doPost_try_def Let_def Logger_log_def error_response_def
      split: prod.splits sum.splits option.splits if_splits)

lemma doPost_clears_cache_on_success:
  assumes "handler (sheets s) = (Inr response, ss)" and "resp_status response = ''success''"
      and "sheetToInvalidate action = Some sheetName" and "truthy action"
  shows "fst (doPost action formType handler s) = response
       \<and> cache (snd (doPost action formType handler s)) = (cache s)(sheetName := None)"
  using assms
  by (simp add: doPost_def doPost_try_def Let_def clearCache_def cache_remove_def Logger_log_def)

text \<open>
  Claim C2 at a failing input: the legacy delete of a ticket that is not in the sheet.
  Before the request the cache holds an unexpired entry for the Customer Service Hub;
  the response reports an error, the sheet is unchanged, and the cache entry is gone.
\<close>

theorem legacy_delete_clears_cache_on_error:
  "cache_get hubServer SHEET_customerService = Some ''[]''
   \<and> resp_status (fst (doGet p deleteMissingTicket hubServer)) = ''error''
   \<and> resp_message (fst (doGet p deleteMissingTicket hubServer)) = Some ''Record not found for deletion.''
   \<and> sheets (snd (doGet p deleteMissingTicket hubServer)) = sheets hubServer
   \<and> cache (snd (doGet p deleteMissingTicket hubServer)) SHEET_customerService = None"
  by (simp add: doGet_def doGet_try_def parameter_def deleteRecord_def findRowById_def hubServer_def
      hubSheet_def getSheet_def getValues_def foundRow_def elemAt_def clearCache_def cache_remove_def
      Logger_log_def cache_get_def error_response_def deleteMissingTicket_def Let_def)

section \<open>Updating a row by ID\<close>

lemma findRowFrom_Some:
  "findRowFrom idx t i rows = Some (k, row) \<Longrightarrow>
     i \<le> k \<and> k < i + length rows \<and> row = rows ! (k - i)
   \<and> trim (js_string (elemAt row idx)) = t
   \<and> (\<forall>j < k - i. trim (js_string (elemAt (rows ! j) idx)) \<noteq> t)"
proof (induction rows arbitrary: i)
  case Nil
  then show ?case by simp
next
  case (Cons r rows)
  show ?case
  proof (cases "trim (js_string (elemAt r idx)) = t")
    case True
    with Cons.prems show ?thesis by simp
  next
    case False
    with Cons.prems have "findRowFrom idx t (Suc i) rows = Some (k, row)" by simp
    from Cons.IH [OF this] have ih: "Suc i \<le> k" "k < Suc i + length rows" "row = rows ! (k - Suc i)"
      "trim (js_string (elemAt row idx)) = t"
      "\<forall>j < k - Suc i. trim (js_string (elemAt (rows ! j) idx)) \<noteq> t"
      by auto
    have "trim (js_string (elemAt ((r # rows) ! j) idx)) \<noteq> t" if "j < k - i" for j
    proof (cases j)
      case 0
      with False show ?thesis by simp
    next
      case (Suc j')
      with that have "j' < k - Suc i" by simp
      with ih(5) Suc show ?thesis by simp
    qed
    with ih show ?thesis by (auto simp: nth_Cons')
  qed
qed

lemma foundRow_Some:
  assumes "foundRow hs (findRowFrom idx t 1 rows) = Some info"
  shows "rowHeaders info = hs \<and> 2 \<le> rowIndex info \<and> rowIndex info - 1 < length (hs # rows)
       \<and> rowData info = (hs # rows) ! (rowIndex info - 1)
       \<and> trim (js_string (elemAt ((hs # rows) ! (rowIndex info - 1)) idx)) = t
       \<and> (\<forall>i < rowIndex info - 1. 0 < i \<longrightarrow> trim (js_string (elemAt ((hs # rows) ! i) idx)) \<noteq> t)"
proof -
  from assms obtain k row where f: "findRowFrom idx t 1 rows = Some (k, row)"
      and i: "info = \<lparr>rowIndex = k + 1, rowData = row, rowHeaders = hs\<rparr>"
    by (auto simp: foundRow_def)
  from findRowFrom_Some [OF f] have k: "1 \<le> k" "k < 1 + length rows" "row = rows ! (k - 1)"
    "trim (js_string (elemAt row idx)) = t"
    "\<forall>j < k - 1. trim (js_string (elemAt (rows ! j) idx)) \<noteq> t"
    by auto
  have "trim (js_string (elemAt ((hs # rows) ! i) idx)) \<noteq> t" if "i < k" "0 < i" for i
  proof -
    from that have "i - 1 < k - 1" by simp
    with k(5) have "trim (js_string (elemAt (rows ! (i - 1)) idx)) \<noteq> t" by blast
    with that show ?thesis by (simp add: nth_Cons')
  qed
  with i k show ?thesis by (auto simp: nth_Cons')
qed

text \<open>A row lookup that succeeds, on either function, has found the first row whose ID matches.\<close>

lemma findRowByHeaderValue_Some:
  assumes "findRowByHeaderValue sheetName data ident headerName = Inr (Some info)"
  shows "data \<noteq> [] \<and> rowHeaders info = hd data \<and> 2 \<le> rowIndex info \<and> rowIndex info - 1 < length data
       \<and> rowData info = data ! (rowIndex info - 1)
       \<and> first_match data headerName ident (rowIndex info - 1)"
proof (cases data)
  case Nil
  with assms show ?thesis by (simp add: findRowByHeaderValue_def)
next
  case (Cons hs rows)
  with assms obtain idx where idx: "indexOf hs (JStr headerName) = Some idx"
    and "foundRow hs (findRowFrom idx (trim (js_string ident)) 1 rows) = Some info"
    by (auto simp: findRowByHeaderValue_def split: option.splits)
  from foundRow_Some [OF this(2)] Cons idx show ?thesis
    by (auto simp: first_match_def id_matches_def)
qed





lemma map_or_throw_Inl:
  "xs \<noteq> [] \<Longrightarrow> (\<And>x. \<exists>err. f x = Inl err) \<Longrightarrow> \<exists>err. map_or_throw f xs = Inl err"
proof (cases xs)
  case Nil
  assume "xs \<noteq> []"
  with Nil show ?thesis by simp
next
  case (Cons x rest)
  assume "\<And>x. \<exists>err. f x = Inl err"
  then obtain err where "f x = Inl err" by blast
  with Cons show ?thesis by simp
qed




text \<open>
  A payload with an own property named \<open>hasOwnProperty\<close> makes the generic update throw
  once the row is found: no update of such a payload succeeds, and the sheet is not written.
\<close>

lemma genericUpdate_shadowed_method:
  assumes "hasOwn payload ''hasOwnProperty''"
  shows "\<exists>err. genericUpdate p sheetName payload idKey stamp ss = (Inl err, getSheet sheetName ss)"
proof -
  let ?ss1 = "getSheet sheetName ss"
  let ?old = "getValues ?ss1 sheetName"
  define payload1 where "payload1 = (case stamp of None \<Rightarrow> payload | Some k \<Rightarrow> payload(k \<mapsto> newDate p))"
  have shadow: "hasOwn payload1 ''hasOwnProperty''"
    using assms by (cases stamp) (auto simp: payload1_def hasOwn_def)
  show ?thesis
  proof (cases "findRowByHeaderValue sheetName ?old (getProp payload idKey) idKey")
    case (Inl err)
    then show ?thesis by (simp add: genericUpdate_def Let_def)
  next
    case (Inr found)
    show ?thesis
    proof (cases found)
      case None
      with Inr show ?thesis by (simp add: genericUpdate_def Let_def)
    next
      case (Some info)
      with Inr have f: "findRowByHeaderValue sheetName ?old (getProp payload idKey) idKey = Inr (Some info)"
        by simp
      from findRowByHeaderValue_Some [OF f] have fm: "first_match ?old idKey (getProp payload idKey) (rowIndex info - 1)"
        and hs: "rowHeaders info = hd ?old" by auto
      from fm have "indexOf (hd ?old) (JStr idKey) \<noteq> None"
        by (auto simp: first_match_def id_matches_def split: option.splits)
      then have "hd ?old \<noteq> []" by auto
      with hs have "rowHeaders info \<noteq> []" by simp
      then obtain h rest where "rowHeaders info = h # rest" by (auto simp: neq_Nil_conv)
      then have ne: "enumerate 0 (rowHeaders info) \<noteq> []" by simp
      have "\<exists>err. map_or_throw (\<lambda>(index, header).
                case hasOwnProperty payload1 (js_string header) of
                  Inl err \<Rightarrow> Inl err
                | Inr own \<Rightarrow> Inr (if own then getProp payload1 (js_string header) else elemAt (rowData info) index))
              (enumerate 0 (rowHeaders info)) = Inl err"
        by (rule map_or_throw_Inl [OF ne]) (auto simp: hasOwnProperty_def shadow)
      then obtain err where "map_or_throw (\<lambda>(index, header).
                case hasOwnProperty payload1 (js_string header) of
                  Inl err \<Rightarrow> Inl err
                | Inr own \<Rightarrow> Inr (if own then getProp payload1 (js_string header) else elemAt (rowData info) index))
              (enumerate 0 (rowHeaders info)) = Inl err" by blast
      with f show ?thesis
        unfolding payload1_def by (auto simp: genericUpdate_def Let_def)
    qed
  qed
qed

lemma trims: "trim ''task-1'' = ''task-1''" "trim ''task-2'' = ''task-2''"
  "trim ''acc-1'' = ''acc-1''" "trim ''acc-2'' = ''acc-2''"
  "trim ''AccountID'' = ''AccountID''" "trim ''Status'' = ''Status''" "trim ''Notes'' = ''Notes''"
  "trim [] = []"
  by code_simp+

lemma camels: "camelCaseKey ''AccountID'' = ''accountID''" "camelCaseKey ''Status'' = ''status''"
  "camelCaseKey ''Notes'' = ''notes''"
  by code_simp+

text \<open>
  The no-break space is white space to \<open>trim()\<close> and to the regular expressions of
  \<open>getHeaderToFieldMap\<close>: around a header it is removed, and inside it starts a new word.
\<close>

lemma no_break_space:
  "is_space (CHR 0xA0)"
  "trim (CHR 0xA0 # ''Status'' @ [CHR 0xA0]) = ''Status''"
  "camelCaseKey (''Location'' @ [CHR 0xA0] @ ''name'') = ''locationName''"
  by code_simp+

lemma genericUpdate_tasks:
  "genericUpdate p SHEET_tasks taskPayload ''TaskID'' None [SHEET_tasks \<mapsto> tasksSheet] =
     (Inr (success_message ''Task updated successfully.''),
      [SHEET_tasks \<mapsto> [[JStr ''TaskID'', JStr ''Status'', JStr ''Notes''],
                        [JStr ''task-1'', JStr ''Open'', JStr ''call back''],
                        [JStr ''task-2'', JStr ''Done'', JStr ''send quote'']]])"
  by (simp add: genericUpdate_def getSheet_def getValues_def tasksSheet_def taskPayload_def getProp_def
      findRowByHeaderValue_def foundRow_def elemAt_def trims hasOwnProperty_def hasOwn_def
      setRowValues_def singular_def SHEET_tasks_def Let_def)

lemma headerMap_accounts:
  "getHeaderToFieldMap [JStr ''AccountID'', JStr ''Status'', JStr ''Notes''] =
     [''AccountID'' \<mapsto> ''accountID'', ''Status'' \<mapsto> ''status'', ''Notes'' \<mapsto> ''notes'']"
  by (simp add: getHeaderToFieldMap_def trims camels)




text \<open>
  The same updates with a payload that has an own property \<open>hasOwnProperty\<close>: the call of
  the method throws, the response of the handler is an error, and the sheet is as it was.
\<close>

lemma update_with_shadowed_method:
  "genericUpdate p SHEET_tasks (taskPayload(''hasOwnProperty'' \<mapsto> JBool True)) ''TaskID'' None
      [SHEET_tasks \<mapsto> tasksSheet] =
     (Inl (TypeError ''payload.hasOwnProperty is not a function''), [SHEET_tasks \<mapsto> tasksSheet])"
  "handleUpdateAccount p (accountPayload(''hasOwnProperty'' \<mapsto> JBool True))
      [SHEET_accounts \<mapsto> accountsSheet] =
     (Inl (TypeError ''payload.hasOwnProperty is not a function''), [SHEET_accounts \<mapsto> accountsSheet])"
  by (simp_all add: genericUpdate_def handleUpdateAccount_def getSheet_def getValues_def tasksSheet_def
      taskPayload_def accountsSheet_def accountPayload_def getProp_def findRowByHeaderValue_def
      findRowById_def foundRow_def elemAt_def trims hasOwnProperty_def hasOwn_def headerMap_accounts
      keyOfHeader_def accountCell_def accountRow_def SHEET_tasks_def SHEET_accounts_def Let_def)




text \<open>
  The task update through \<open>doPost\<close>: for a task that is not in the sheet the response is
  an error and the cached entry of the sheet stays; for the task of the sheet the update
  succeeds and the entry is gone.
\<close>

lemma trim_task9: "trim ''task-9'' = ''task-9''" by code_simp

lemma doPost_update_of_missing_task:
  "fst (doPost (JStr ''updateTask'') JUndefined
          (genericUpdate p SHEET_tasks missingTaskPayload ''TaskID'' None) tasksServer) =
     error_response ''Error: Task with ID task-9 not found.''
   \<and> cache (snd (doPost (JStr ''updateTask'') JUndefined
          (genericUpdate p SHEET_tasks missingTaskPayload ''TaskID'' None) tasksServer)) = cache tasksServer
   \<and> fst (doPost (JStr ''updateTask'') JUndefined
          (genericUpdate p SHEET_tasks taskPayload ''TaskID'' None) tasksServer) =
     success_message ''Task updated successfully.''
   \<and> cache (snd (doPost (JStr ''updateTask'') JUndefined
          (genericUpdate p SHEET_tasks taskPayload ''TaskID'' None) tasksServer)) SHEET_tasks = None"
proof -
  have missing: "genericUpdate p SHEET_tasks missingTaskPayload ''TaskID'' None [SHEET_tasks \<mapsto> tasksSheet] =
      (Inl (newError ''Task with ID task-9 not found.''), [SHEET_tasks \<mapsto> tasksSheet])"
    by (simp add: genericUpdate_def getSheet_def getValues_def tasksSheet_def missingTaskPayload_def
        getProp_def findRowByHeaderValue_def foundRow_def elemAt_def trims trim_task9 singular_def
        SHEET_tasks_def Let_def)
  have route: "sheetToInvalidate (JStr ''updateTask'') = Some SHEET_tasks"
    by (simp add: sheetToInvalidate_def)
  show ?thesis
    by (simp add: doPost_def doPost_try_def route tasksServer_def missing genericUpdate_tasks
        newError_def error_response_def success_message_def clearCache_def cache_remove_def
        Logger_log_def Let_def)
qed

section \<open>Concurrent callers of the read-through cache\<close>

lemma filter_update_count:
  "i < length xs \<Longrightarrow>
     length (filter P (xs[i := y])) + (if P (xs ! i) then 1 else 0)
       = length (filter P xs) + (if P y then 1 else 0)"
proof (induction xs arbitrary: i)
  case Nil
  then show ?case by simp
next
  case (Cons x xs)
  show ?case
  proof (cases i)
    case 0
    then show ?thesis by simp
  next
    case (Suc j)
    with Cons.prems have "j < length xs" by simp
    from Cons.IH [OF this] Suc show ?thesis by simp
  qed
qed

lemma list_all_update: "list_all Q xs \<Longrightarrow> Q y \<Longrightarrow> list_all Q (xs[i := y])"
  by (induction xs arbitrary: i) (auto split: nat.splits)

lemma sole_critical:
  assumes "length (filter P xs) = 1" and "i < length xs" and "P (xs ! i)"
      and "j < length xs" and "j \<noteq> i"
  shows "\<not> P (xs ! j)"
proof
  assume pj: "P (xs ! j)"
  have "2 \<le> length (filter P xs)"
    using assms(2-5) pj
  proof (induction xs arbitrary: i j)
    case Nil
    then show ?case by simp
  next
    case (Cons x xs)
    show ?case
    proof (cases i)
      case 0
      with Cons.prems obtain j' where j: "j = Suc j'" "j' < length xs" "P (xs ! j')"
        by (cases j) auto
      then have "xs ! j' \<in> set (filter P xs)" by simp
      then have "1 \<le> length (filter P xs)" by (cases "filter P xs") auto
      with 0 Cons.prems show ?thesis by simp
    next
      case (Suc i')
      show ?thesis
      proof (cases j)
        case 0
        from Suc Cons.prems have "i' < length xs" "P (xs ! i')" by auto
        then have "xs ! i' \<in> set (filter P xs)" by simp
        then have "1 \<le> length (filter P xs)" by (cases "filter P xs") auto
        with 0 Cons.prems show ?thesis by simp
      next
        case (Suc j')
        with \<open>i = Suc i'\<close> Cons.prems have "i' < length xs" "P (xs ! i')" "j' < length xs" "j' \<noteq> i'" "P (xs ! j')"
          by auto
        from Cons.IH [OF this] show ?thesis by simp
      qed
    qed
  qed
  with assms(1) show False by simp
qed

lemma fetchCount_log [simp]: "fetchCount key (Logger_log line s) = fetchCount key s"
  by (simp add: fetchCount_def Logger_log_def)

lemma cache_get_frame:
  "cache s = cache s0 \<Longrightarrow> clock s = clock s0 \<Longrightarrow> cache_get s key = cache_get s0 key"
  by (simp add: cache_get_def split: option.splits)

lemma count_pos: "i < length xs \<Longrightarrow> P (xs ! i) \<Longrightarrow> 0 < length (filter P xs)"
  by (simp add: filter_empty_conv) (metis nth_mem)

lemma count_update:
  assumes "i < length xs"
  shows "length (filter P (xs[i := y])) =
           length (filter P xs) - (if P (xs ! i) then 1 else 0) + (if P y then 1 else 0)"
  using filter_update_count [OF assms, of P y] count_pos [OF assms, of P] by auto

lemma perform_Timeout:
  assumes "perform p key f (Timeout i) w = Some w1"
  shows "i < length (threads w) \<and> threads w ! i = AtWaitLock \<and> lockHeld (srv w)
       \<and> w1 = \<lparr>srv = (srv w)\<lparr>effects := effects (srv w) @ [WaitLock 30000]\<rparr>,
                 threads = (threads w)[i := Returned (Inl lockTimeout)]\<rparr>"
  using assms by (auto split: if_splits)

lemma perform_Step:
  assumes "perform p key f (Step i) w = Some w1"
  shows "i < length (threads w)
       \<and> (\<exists>pc1 s1. thread_step p key f (threads w ! i) (srv w) = Some (pc1, s1)
            \<and> w1 = \<lparr>srv = s1, threads = (threads w)[i := pc1]\<rparr>)"
  using assms by (auto split: if_splits option.splits)

lemma inv_timeout:
  assumes inv: "contention_inv p key s0 data w"
      and step: "perform p key f (Timeout i) w = Some w1"
  shows "contention_inv p key s0 data w1"
proof -
  note t = perform_Timeout [OF step]
  from t have i: "i < length (threads w)" and pc: "threads w ! i = AtWaitLock" by auto
  have cnt: "length (filter in_critical_section (threads w1)) = length (filter in_critical_section (threads w))"
    using t by (simp add: count_update [OF i])
  have a: "list_all before_fetch (threads w) \<Longrightarrow> list_all before_fetch (threads w1)"
    using t by (auto intro!: list_all_update simp: before_fetch_def)
  have b: "list_all (before_store data) (threads w) \<Longrightarrow> list_all (before_store data) (threads w1)"
    using t by (auto intro!: list_all_update simp: before_store_def)
  have c: "list_all (after_store p data) (threads w) \<Longrightarrow> list_all (after_store p data) (threads w1)"
    using t by (auto intro!: list_all_update simp: after_store_def)
  have s: "lockHeld (srv w1) = lockHeld (srv w)" "clock (srv w1) = clock (srv w)"
    "cache (srv w1) = cache (srv w)" "sheets (srv w1) = sheets (srv w)"
    "fetchCount key (srv w1) = fetchCount key (srv w)" "cache_get (srv w1) key = cache_get (srv w) key"
    using t by (auto simp: fetchCount_def cache_get_def split: option.splits)
  show ?thesis
    using inv a b c unfolding contention_inv_def cnt s by blast
qed

lemma list_all_nth: "list_all Q xs \<Longrightarrow> i < length xs \<Longrightarrow> Q (xs ! i)"
  by (simp add: list_all_length)

lemma others_outside:
  assumes "list_all Q xs" and "length (filter P xs) = 1" and "i < length xs" and "P (xs ! i)"
      and "\<And>x. Q x \<Longrightarrow> \<not> P x \<Longrightarrow> R x" and "R y"
  shows "list_all R (xs[i := y])"
  unfolding list_all_length
proof (intro allI impI)
  fix j assume j: "j < length (xs[i := y])"
  show "R (xs[i := y] ! j)"
  proof (cases "j = i")
    case True
    with j assms(6) show ?thesis by simp
  next
    case False
    with j have "\<not> P (xs ! j)" using sole_critical [OF assms(2,3,4)] by simp
    moreover have "Q (xs ! j)" using assms(1) j by (simp add: list_all_length)
    ultimately show ?thesis using assms(5) False j by simp
  qed
qed

lemma cache_get_effects [simp]:
  "cache_get (s\<lparr>effects := es\<rparr>) key = cache_get s key"
  "cache_get (s\<lparr>effects := es, lockHeld := b\<rparr>) key = cache_get s key"
  "cache_get (Logger_log line s) key = cache_get s key"
  "cache_get (releaseLock s) key = cache_get s key"
  by (simp_all add: cache_get_def Logger_log_def releaseLock_def split: option.splits)

lemma fetchCount_effects [simp]:
  "fetchCount key (s\<lparr>effects := effects s @ [WaitLock ms], lockHeld := b\<rparr>) = fetchCount key s"
  "fetchCount key (releaseLock s) = fetchCount key s"
  "fetchCount key (cache_put k v n s) = fetchCount key s"
  "fetchCount key (s\<lparr>effects := effects s @ [Fetch key], sheets := ss\<rparr>) = fetchCount key s + 1"
  by (simp_all add: fetchCount_def releaseLock_def cache_put_def)

lemma Logger_log_frame [simp]:
  "clock (Logger_log line s) = clock s" "lockHeld (Logger_log line s) = lockHeld s"
  "cache (Logger_log line s) = cache s" "sheets (Logger_log line s) = sheets s"
  by (simp_all add: Logger_log_def)

lemma inv_step:
  assumes inv: "contention_inv p key s0 data w"
      and miss: "cache_get s0 key = None"
      and fetch: "f (sheets s0) = (Inr data, ss1)"
      and step: "perform p key f (Step i) w = Some w1"
  shows "contention_inv p key s0 data w1"
proof -
  from perform_Step [OF step] obtain pc1 s1 where
    i: "i < length (threads w)"
    and ts: "thread_step p key f (threads w ! i) (srv w) = Some (pc1, s1)"
    and w1: "w1 = \<lparr>srv = s1, threads = (threads w)[i := pc1]\<rparr>"
    by blast
  from inv have cnt: "length (filter in_critical_section (threads w)) = (if lockHeld (srv w) then 1 else 0)"
    and clk: "clock (srv w) = clock s0"
    and ph: "fetchCount key (srv w) = fetchCount key s0 \<and> cache (srv w) = cache s0
           \<and> sheets (srv w) = sheets s0 \<and> list_all before_fetch (threads w)
         \<or> fetchCount key (srv w) = fetchCount key s0 + 1 \<and> cache (srv w) = cache s0
           \<and> lockHeld (srv w) \<and> list_all (before_store data) (threads w)
         \<or> fetchCount key (srv w) = fetchCount key s0 + 1
           \<and> cache_get (srv w) key = Some (stringify p data)
           \<and> list_all (after_store p data) (threads w)"
    by (simp_all add: contention_inv_def)
  have held: "lockHeld (srv w)" "length (filter in_critical_section (threads w)) = 1"
    if "in_critical_section (threads w ! i)"
    using count_pos [OF i, of in_critical_section] cnt that by (auto split: if_splits)
  note upd = count_update [OF i, of in_critical_section]
  show ?thesis
  proof (cases "threads w ! i")
    case AtFastCheck
    from ph show ?thesis
    proof (elim disjE conjE)
      assume a: "fetchCount key (srv w) = fetchCount key s0" "cache (srv w) = cache s0"
        "sheets (srv w) = sheets s0" "list_all before_fetch (threads w)"
      have "cache_get (srv w) key = None" using cache_get_frame [OF a(2) clk] miss by simp
      with ts AtFastCheck have "pc1 = AtWaitLock" "s1 = srv w" by auto
      then show ?thesis
        using a cnt clk AtFastCheck
        by (simp add: contention_inv_def w1 upd list_all_update before_fetch_def)
    next
      assume b: "fetchCount key (srv w) = fetchCount key s0 + 1" "cache (srv w) = cache s0"
        "lockHeld (srv w)" "list_all (before_store data) (threads w)"
      have "cache_get (srv w) key = None" using cache_get_frame [OF b(2) clk] miss by simp
      with ts AtFastCheck have "pc1 = AtWaitLock" "s1 = srv w" by auto
      then show ?thesis
        using b cnt clk AtFastCheck
        by (simp add: contention_inv_def w1 upd list_all_update before_store_def)
    next
      assume c: "fetchCount key (srv w) = fetchCount key s0 + 1"
        "cache_get (srv w) key = Some (stringify p data)" "list_all (after_store p data) (threads w)"
      with ts AtFastCheck have "pc1 = Returned (Inr (parse p (stringify p data)))"
        "s1 = Logger_log (''Cache HIT for: '' @ key) (srv w)" by auto
      then show ?thesis
        using c cnt clk AtFastCheck
        by (simp add: contention_inv_def w1 upd list_all_update after_store_def is_payload_def)
    qed
  next
    case AtWaitLock
    with ts have free: "\<not> lockHeld (srv w)" and pc1: "pc1 = AtRecheck"
      and s1: "s1 = (srv w)\<lparr>effects := effects (srv w) @ [WaitLock 30000], lockHeld := True\<rparr>"
      by (auto split: if_splits)
    from ph free show ?thesis
      using cnt clk AtWaitLock
      by (auto simp add: contention_inv_def w1 pc1 s1 upd list_all_update before_fetch_def after_store_def)
  next
    case AtRecheck
    then have crit: "in_critical_section (threads w ! i)" by simp
    from ph show ?thesis
    proof (elim disjE conjE)
      assume a: "fetchCount key (srv w) = fetchCount key s0" "cache (srv w) = cache s0"
        "sheets (srv w) = sheets s0" "list_all before_fetch (threads w)"
      have "cache_get (srv w) key = None" using cache_get_frame [OF a(2) clk] miss by simp
      with ts AtRecheck have "pc1 = AtFetch" "s1 = Logger_log (''Cache MISS for: '' @ key) (srv w)" by auto
      then show ?thesis
        using a cnt clk AtRecheck held [OF crit]
        by (simp add: contention_inv_def w1 upd list_all_update before_fetch_def)
    next
      assume b: "list_all (before_store data) (threads w)"
      from list_all_nth [OF b i] AtRecheck show ?thesis by (simp add: before_store_def)
    next
      assume c: "fetchCount key (srv w) = fetchCount key s0 + 1"
        "cache_get (srv w) key = Some (stringify p data)" "list_all (after_store p data) (threads w)"
      with ts AtRecheck have "pc1 = AtRelease (Inr (parse p (stringify p data)))"
        "s1 = Logger_log (''Cache HIT (after lock) for: '' @ key) (srv w)" by auto
      then show ?thesis
        using c cnt clk AtRecheck held [OF crit]
        by (simp add: contention_inv_def w1 upd list_all_update after_store_def is_payload_def)
    qed
  next
    case AtFetch
    then have crit: "in_critical_section (threads w ! i)" by simp
    from ph show ?thesis
    proof (elim disjE conjE)
      assume a: "fetchCount key (srv w) = fetchCount key s0" "cache (srv w) = cache s0"
        "sheets (srv w) = sheets s0" "list_all before_fetch (threads w)"
      from ts AtFetch fetch a(3) have pc1: "pc1 = AtPut data"
        and s1: "s1 = (srv w)\<lparr>effects := effects (srv w) @ [Fetch key], sheets := ss1\<rparr>"
        by (auto simp: Let_def)
      have others: "list_all (before_store data) ((threads w)[i := AtPut data])"
        by (rule others_outside [OF a(4) held(2) [OF crit] i crit])
           (auto simp: before_fetch_def before_store_def)
      show ?thesis
        using a cnt clk AtFetch held [OF crit] others
        by (simp add: contention_inv_def w1 pc1 s1 upd)
    next
      assume b: "list_all (before_store data) (threads w)"
      from list_all_nth [OF b i] AtFetch show ?thesis by (simp add: before_store_def)
    next
      assume c: "list_all (after_store p data) (threads w)"
      from list_all_nth [OF c i] AtFetch show ?thesis by (simp add: after_store_def)
    qed
  next
    case (AtPut d)
    then have crit: "in_critical_section (threads w ! i)" by simp
    from ph show ?thesis
    proof (elim disjE conjE)
      assume a: "list_all before_fetch (threads w)"
      from list_all_nth [OF a i] AtPut show ?thesis by (simp add: before_fetch_def)
    next
      assume b: "fetchCount key (srv w) = fetchCount key s0 + 1" "cache (srv w) = cache s0"
        "lockHeld (srv w)" "list_all (before_store data) (threads w)"
      from list_all_nth [OF b(4) i] AtPut have d: "d = data" by (simp add: before_store_def)
      from ts AtPut d have pc1: "pc1 = AtRelease (Inr data)"
        and s1: "s1 = cache_put key (stringify p data) CACHE_EXPIRATION_SECONDS (srv w)"
        by auto
      have others: "list_all (after_store p data) ((threads w)[i := AtRelease (Inr data)])"
        by (rule others_outside [OF b(4) held(2) [OF crit] i crit])
           (auto simp: after_store_def before_store_def is_payload_def)
      have stored: "cache_get s1 key = Some (stringify p data)"
        by (simp add: s1 cache_get_def cache_put_def CACHE_EXPIRATION_SECONDS_def)
      have frame: "clock s1 = clock (srv w)" "lockHeld s1 = lockHeld (srv w)"
        by (simp_all add: s1 cache_put_def)
      show ?thesis
        using b cnt clk AtPut others stored frame
        by (simp add: contention_inv_def w1 pc1 upd) (simp add: s1)
    next
      assume c: "list_all (after_store p data) (threads w)"
      from list_all_nth [OF c i] AtPut show ?thesis by (simp add: after_store_def)
    qed
  next
    case (AtRelease r)
    then have crit: "in_critical_section (threads w ! i)" by simp
    from ts AtRelease have pc1: "pc1 = Returned r" and s1: "s1 = releaseLock (srv w)" by auto
    from ph show ?thesis
    proof (elim disjE conjE)
      assume a: "list_all before_fetch (threads w)"
      from list_all_nth [OF a i] AtRelease show ?thesis by (simp add: before_fetch_def)
    next
      assume b: "list_all (before_store data) (threads w)"
      from list_all_nth [OF b i] AtRelease show ?thesis by (simp add: before_store_def)
    next
      assume c: "fetchCount key (srv w) = fetchCount key s0 + 1"
        "cache_get (srv w) key = Some (stringify p data)" "list_all (after_store p data) (threads w)"
      from list_all_nth [OF c(3) i] AtRelease have r: "is_payload p data r" by (simp add: after_store_def)
      have frame: "clock (releaseLock (srv w)) = clock (srv w)" "\<not> lockHeld (releaseLock (srv w))"
        by (simp_all add: releaseLock_def)
      show ?thesis
        using c cnt clk AtRelease held [OF crit] r frame
        by (simp add: contention_inv_def w1 pc1 s1 upd list_all_update after_store_def)
    qed
  next
    case (Returned r)
    with ts show ?thesis by simp
  qed
qed

lemma perform_length: "perform p key f a w = Some w1 \<Longrightarrow> length (threads w1) = length (threads w)"
  by (cases a) (auto split: if_splits option.splits)

lemma exec_length: "exec p key f sched w = Some w1 \<Longrightarrow> length (threads w1) = length (threads w)"
proof (induction sched arbitrary: w)
  case Nil
  then show ?case by simp
next
  case (Cons a sched)
  then show ?case by (auto split: option.splits dest: perform_length)
qed

lemma inv_perform:
  assumes "contention_inv p key s0 data w" and "cache_get s0 key = None"
      and "f (sheets s0) = (Inr data, ss1)" and "perform p key f a w = Some w1" and "a \<noteq> Evict"
  shows "contention_inv p key s0 data w1"
proof (cases a)
  case (Step i)
  with assms(4) have "perform p key f (Step i) w = Some w1" by simp
  from inv_step [OF assms(1,2,3) this] show ?thesis .
next
  case (Timeout i)
  with assms(4) have "perform p key f (Timeout i) w = Some w1" by simp
  from inv_timeout [OF assms(1) this] show ?thesis .
next
  case Evict
  with assms(5) show ?thesis by simp
qed

lemma inv_callers:
  assumes "\<not> lockHeld s0"
  shows "contention_inv p key s0 data (callers n s0)"
  using assms by (simp add: contention_inv_def callers_def list_all_length before_fetch_def)

text \<open>What the invariant says about the execution that takes a step.\<close>

lemma inv_critical:
  assumes "contention_inv p key s0 data w" and "i < length (threads w)"
      and "in_critical_section (threads w ! i)"
  shows "lockHeld (srv w)"
  using assms count_pos [OF assms(2), of in_critical_section]
  by (auto simp: contention_inv_def split: if_splits)

lemma inv_stored:
  assumes "contention_inv p key s0 data w" and "cache_get s0 key = None"
  shows "cache_get (srv w) key \<noteq> None \<longleftrightarrow>
           cache_get (srv w) key = Some (stringify p data)
         \<and> fetchCount key (srv w) = fetchCount key s0 + 1 \<and> list_all (after_store p data) (threads w)"
proof -
  have "cache_get (srv w) key = None" if "cache (srv w) = cache s0"
    using cache_get_frame [OF that, of key] assms by (simp add: contention_inv_def)
  with assms(1) show ?thesis by (auto simp: contention_inv_def)
qed

lemma inv_at_release:
  assumes "contention_inv p key s0 data w" and "i < length (threads w)"
      and "threads w ! i = AtRelease r"
  shows "cache_get (srv w) key \<noteq> None"
proof -
  from assms(1) have "list_all before_fetch (threads w) \<or> list_all (before_store data) (threads w)
      \<or> cache_get (srv w) key = Some (stringify p data)"
    by (auto simp: contention_inv_def)
  then show ?thesis
  proof (elim disjE)
    assume "list_all before_fetch (threads w)"
    from list_all_nth [OF this assms(2)] assms(3) show ?thesis by (simp add: before_fetch_def)
  next
    assume "list_all (before_store data) (threads w)"
    from list_all_nth [OF this assms(2)] assms(3) show ?thesis by (simp add: before_store_def)
  next
    assume "cache_get (srv w) key = Some (stringify p data)"
    then show ?thesis by simp
  qed
qed

lemma inv_at_put:
  assumes "contention_inv p key s0 data w" and "i < length (threads w)"
      and "threads w ! i = AtPut d"
  shows "d = data"
proof -
  from assms(1) have "list_all before_fetch (threads w) \<or> list_all (before_store data) (threads w)
      \<or> list_all (after_store p data) (threads w)"
    by (auto simp: contention_inv_def)
  then show ?thesis
  proof (elim disjE)
    assume "list_all before_fetch (threads w)"
    from list_all_nth [OF this assms(2)] assms(3) show ?thesis by (simp add: before_fetch_def)
  next
    assume "list_all (before_store data) (threads w)"
    from list_all_nth [OF this assms(2)] assms(3) show ?thesis by (simp add: before_store_def)
  next
    assume "list_all (after_store p data) (threads w)"
    from list_all_nth [OF this assms(2)] assms(3) show ?thesis by (simp add: after_store_def)
  qed
qed

lemma list_ex_update_keep:
  assumes "list_ex P xs" and "i < length xs" and "\<not> P (xs ! i)"
  shows "list_ex P (xs[i := y])"
proof -
  from assms(1) obtain n where n: "n < length xs" "P (xs ! n)" by (auto simp: list_ex_length)
  with assms(3) have "n \<noteq> i" by auto
  with n have "n < length (xs[i := y])" "P (xs[i := y] ! n)" by simp_all
  then show ?thesis unfolding list_ex_length by blast
qed

lemma list_ex_update_new:
  assumes "i < length xs" and "P y"
  shows "list_ex P (xs[i := y])"
proof -
  from assms have "i < length (xs[i := y])" "P (xs[i := y] ! i)" by simp_all
  then show ?thesis unfolding list_ex_length by blast
qed

lemma list_ex_update_back:
  assumes "list_ex P (xs[i := y])" and "\<not> P y"
  shows "list_ex P xs"
proof -
  from assms(1) obtain n where n: "n < length xs" "P (xs[i := y] ! n)" by (auto simp: list_ex_length)
  with assms(2) have "n \<noteq> i" by (auto simp: nth_list_update split: if_splits)
  with n have "P (xs ! n)" by simp
  with n(1) show ?thesis unfolding list_ex_length by blast
qed

lemma fetcher_timeout:
  assumes finv: "fetcher_inv key data w"
      and step: "perform p key f (Timeout i) w = Some w1"
  shows "fetcher_inv key data w1"
proof -
  note t = perform_Timeout [OF step]
  from t have i: "i < length (threads w)" and pc: "threads w ! i = AtWaitLock"
    and held: "lockHeld (srv w1)" and c: "cache_get (srv w1) key = cache_get (srv w) key"
    and th: "threads w1 = (threads w)[i := Returned (Inl lockTimeout)]"
    by auto
  have "list_ex (holds_fetched data) (threads w1)" if "cache_get (srv w1) key \<noteq> None"
  proof -
    from that c finv have "list_ex (holds_fetched data) (threads w)" by (simp add: fetcher_inv_def)
    from list_ex_update_keep [OF this i] pc th show ?thesis by (simp add: holds_fetched_def)
  qed
  with held show ?thesis by (simp add: fetcher_inv_def)
qed

lemma fetcher_step:
  assumes inv: "contention_inv p key s0 data w"
      and finv: "fetcher_inv key data w"
      and step: "perform p key f (Step i) w = Some w1"
  shows "fetcher_inv key data w1"
proof -
  from perform_Step [OF step] obtain pc1 s1 where
    i: "i < length (threads w)"
    and ts: "thread_step p key f (threads w ! i) (srv w) = Some (pc1, s1)"
    and w1: "w1 = \<lparr>srv = s1, threads = (threads w)[i := pc1]\<rparr>"
    by blast
  from finv have part1: "\<not> lockHeld (srv w) \<Longrightarrow> list_ex has_returned (threads w) \<Longrightarrow>
      cache_get (srv w) key \<noteq> None"
    and part2: "cache_get (srv w) key \<noteq> None \<Longrightarrow> list_ex (holds_fetched data) (threads w)"
    by (auto simp: fetcher_inv_def)
  have keep: "list_ex (holds_fetched data) ((threads w)[i := pc1])"
    if "cache_get (srv w) key \<noteq> None" "\<not> holds_fetched data (threads w ! i)"
    using list_ex_update_keep [OF part2 [OF that(1)] i that(2)] .
  show ?thesis
  proof (cases "threads w ! i")
    case AtFastCheck
    show ?thesis
    proof (cases "cache_get (srv w) key")
      case None
      with ts AtFastCheck have s: "pc1 = AtWaitLock" "s1 = srv w" by auto
      have "cache_get (srv w) key \<noteq> None"
        if "\<not> lockHeld (srv w)" "list_ex has_returned ((threads w)[i := AtWaitLock])"
        using part1 [OF that(1) list_ex_update_back [OF that(2)]] by simp
      with None show ?thesis by (auto simp: fetcher_inv_def w1 s)
    next
      case (Some cached)
      with ts AtFastCheck have s: "pc1 = Returned (Inr (parse p cached))"
        "s1 = Logger_log (''Cache HIT for: '' @ key) (srv w)" by auto
      from keep Some AtFastCheck have "list_ex (holds_fetched data) ((threads w)[i := pc1])"
        by (simp add: holds_fetched_def)
      with Some show ?thesis by (simp add: fetcher_inv_def w1 s)
    qed
  next
    case AtWaitLock
    with ts have s: "pc1 = AtRecheck"
      "s1 = (srv w)\<lparr>effects := effects (srv w) @ [WaitLock 30000], lockHeld := True\<rparr>"
      by (auto split: if_splits)
    have "list_ex (holds_fetched data) ((threads w)[i := pc1])" if "cache_get (srv w) key \<noteq> None"
      using keep [OF that] AtWaitLock by (simp add: holds_fetched_def)
    then show ?thesis by (simp add: fetcher_inv_def w1 s)
  next
    case AtRecheck
    then have held: "lockHeld (srv w)" using inv_critical [OF inv i] by simp
    from ts AtRecheck have s: "lockHeld s1 = lockHeld (srv w)" "cache_get s1 key = cache_get (srv w) key"
      by (auto split: option.splits)
    have "list_ex (holds_fetched data) ((threads w)[i := pc1])" if "cache_get (srv w) key \<noteq> None"
      using keep [OF that] AtRecheck by (simp add: holds_fetched_def)
    with held show ?thesis by (simp add: fetcher_inv_def w1 s)
  next
    case AtFetch
    then have held: "lockHeld (srv w)" using inv_critical [OF inv i] by simp
    from ts AtFetch have s: "lockHeld s1 = lockHeld (srv w)" "cache_get s1 key = cache_get (srv w) key"
      by (auto simp: Let_def cache_get_def split: prod.splits sum.splits option.splits)
    have "list_ex (holds_fetched data) ((threads w)[i := pc1])" if "cache_get (srv w) key \<noteq> None"
      using keep [OF that] AtFetch by (simp add: holds_fetched_def)
    with held show ?thesis by (simp add: fetcher_inv_def w1 s)
  next
    case (AtPut d)
    then have held: "lockHeld (srv w)" using inv_critical [OF inv i] by simp
    from inv_at_put [OF inv i AtPut] have d: "d = data" .
    from ts AtPut d have s: "pc1 = AtRelease (Inr data)" "lockHeld s1 = lockHeld (srv w)"
      by (auto simp: cache_put_def)
    have "list_ex (holds_fetched data) ((threads w)[i := pc1])"
      by (rule list_ex_update_new [OF i]) (simp add: s holds_fetched_def)
    with held show ?thesis by (simp add: fetcher_inv_def w1 s)
  next
    case (AtRelease r)
    from inv_at_release [OF inv i AtRelease] have stored: "cache_get (srv w) key \<noteq> None" .
    from ts AtRelease have s: "pc1 = Returned r" "s1 = releaseLock (srv w)" by auto
    have "list_ex (holds_fetched data) ((threads w)[i := pc1])"
    proof (cases "r = Inr data")
      case True
      show ?thesis by (rule list_ex_update_new [OF i]) (simp add: s True holds_fetched_def)
    next
      case False
      with keep [OF stored] AtRelease show ?thesis by (simp add: holds_fetched_def)
    qed
    with stored show ?thesis by (simp add: fetcher_inv_def w1 s)
  next
    case (Returned r)
    with ts show ?thesis by simp
  qed
qed

lemma fetcher_callers:
  assumes "cache_get s0 key = None"
  shows "fetcher_inv key data (callers n s0)"
  using assms by (auto simp: fetcher_inv_def callers_def list_ex_length)

lemma both_exec:
  assumes "cache_get s0 key = None" and "f (sheets s0) = (Inr data, ss1)"
  shows "contention_inv p key s0 data w \<Longrightarrow> fetcher_inv key data w \<Longrightarrow> Evict \<notin> set sched \<Longrightarrow>
         exec p key f sched w = Some w1 \<Longrightarrow>
         contention_inv p key s0 data w1 \<and> fetcher_inv key data w1"
proof (induction sched arbitrary: w)
  case Nil
  then show ?case by simp
next
  case (Cons a sched)
  from Cons.prems(4) obtain w2 where a: "perform p key f a w = Some w2"
    and rest: "exec p key f sched w2 = Some w1"
    by (auto split: option.splits)
  from Cons.prems(3) have ne: "a \<noteq> Evict" and quiet: "Evict \<notin> set sched" by auto
  from inv_perform [OF Cons.prems(1) assms a ne] have inv2: "contention_inv p key s0 data w2" .
  have finv2: "fetcher_inv key data w2"
  proof (cases a)
    case (Step i)
    with a have "perform p key f (Step i) w = Some w2" by simp
    from fetcher_step [OF Cons.prems(1,2) this] show ?thesis .
  next
    case (Timeout i)
    with a have "perform p key f (Timeout i) w = Some w2" by simp
    from fetcher_timeout [OF Cons.prems(2) this] show ?thesis .
  next
    case Evict
    with ne show ?thesis by simp
  qed
  from Cons.IH [OF inv2 finv2 quiet rest] show ?case .
qed

lemma thread_step_remaining:
  "thread_step p key f pc s = Some (pc1, s1) \<Longrightarrow> remaining pc1 < remaining pc"
  by (cases pc) (auto simp: Let_def split: option.splits if_splits prod.splits sum.splits)

lemma remaining_update:
  "i < length xs \<Longrightarrow>
     sum_list (map remaining (xs[i := y])) + remaining (xs ! i) = sum_list (map remaining xs) + remaining y"
proof (induction xs arbitrary: i)
  case Nil
  then show ?case by simp
next
  case (Cons x xs)
  show ?case
  proof (cases i)
    case 0
    then show ?thesis by simp
  next
    case (Suc j)
    with Cons.prems have "j < length xs" by simp
    from Cons.IH [OF this] Suc show ?thesis by simp
  qed
qed

lemma perform_remaining:
  assumes "perform p key f a w = Some w1" and "a \<noteq> Evict"
  shows "sum_list (map remaining (threads w1)) < sum_list (map remaining (threads w))"
proof (cases a)
  case (Step i)
  with assms have "perform p key f (Step i) w = Some w1" by simp
  from perform_Step [OF this] obtain pc1 s1 where
    i: "i < length (threads w)"
    and ts: "thread_step p key f (threads w ! i) (srv w) = Some (pc1, s1)"
    and w1: "w1 = \<lparr>srv = s1, threads = (threads w)[i := pc1]\<rparr>"
    by blast
  from remaining_update [OF i, of pc1] thread_step_remaining [OF ts] w1 show ?thesis by simp
next
  case (Timeout i)
  with assms have "perform p key f (Timeout i) w = Some w1" by simp
  note t = perform_Timeout [OF this]
  then have i: "i < length (threads w)" by simp
  from remaining_update [OF i, of "Returned (Inl lockTimeout)"] t show ?thesis by simp
next
  case Evict
  with assms(2) show ?thesis by simp
qed

lemma exec_remaining:
  "Evict \<notin> set sched \<Longrightarrow> exec p key f sched w = Some w1 \<Longrightarrow>
     length sched + sum_list (map remaining (threads w1)) \<le> sum_list (map remaining (threads w))"
proof (induction sched arbitrary: w)
  case Nil
  then show ?case by simp
next
  case (Cons a sched)
  from Cons.prems obtain w2 where a: "perform p key f a w = Some w2"
    and rest: "exec p key f sched w2 = Some w1"
    by (auto split: option.splits)
  from Cons.prems(1) have ne: "a \<noteq> Evict" and quiet: "Evict \<notin> set sched" by auto
  from Cons.IH [OF quiet rest] perform_remaining [OF a ne] show ?case by simp
qed

lemma remaining_callers: "sum_list (map remaining (threads (callers n s))) = 6 * n"
  by (simp add: callers_def sum_list_replicate)

lemma count_one: "length (filter P xs) = 1 \<Longrightarrow> \<exists>j < length xs. P (xs ! j)"
proof -
  assume "length (filter P xs) = 1"
  then have "filter P xs \<noteq> []" by auto
  then obtain x where "x \<in> set xs" "P x" by (auto simp: filter_empty_conv)
  then show ?thesis by (auto simp: in_set_conv_nth)
qed

lemma step_possible:
  assumes inv: "contention_inv p key s0 data w"
      and i: "i < length (threads w)" and nr: "\<not> has_returned (threads w ! i)"
  shows "\<exists>j < length (threads w). \<exists>w1. perform p key f (Step j) w = Some w1"
proof (cases "lockHeld (srv w)")
  case True
  with inv have "length (filter in_critical_section (threads w)) = 1"
    by (simp add: contention_inv_def)
  from count_one [OF this] obtain j where j: "j < length (threads w)"
    and c: "in_critical_section (threads w ! j)" by blast
  then have "\<exists>r. thread_step p key f (threads w ! j) (srv w) = Some r"
    by (cases "threads w ! j") (auto simp: Let_def split: option.splits prod.splits sum.splits)
  then obtain pc1 s1 where "thread_step p key f (threads w ! j) (srv w) = Some (pc1, s1)" by force
  with j have "perform p key f (Step j) w = Some \<lparr>srv = s1, threads = (threads w)[j := pc1]\<rparr>" by simp
  with j show ?thesis by blast
next
  case False
  with inv have "length (filter in_critical_section (threads w)) = 0"
    by (simp add: contention_inv_def)
  with i have "\<not> in_critical_section (threads w ! i)" using count_pos [OF i, of in_critical_section] by auto
  with nr False have "\<exists>r. thread_step p key f (threads w ! i) (srv w) = Some r"
    by (cases "threads w ! i") (auto split: option.splits)
  then obtain pc1 s1 where "thread_step p key f (threads w ! i) (srv w) = Some (pc1, s1)" by force
  with i have "perform p key f (Step i) w = Some \<lparr>srv = s1, threads = (threads w)[i := pc1]\<rparr>" by simp
  with i show ?thesis by blast
qed

text \<open>
  When all callers have returned, and there is at least one, the fetch function has run
  once and one of them has the fetched data.
\<close>

lemma all_returned:
  assumes inv: "contention_inv p key s0 data w" and finv: "fetcher_inv key data w"
      and miss: "cache_get s0 key = None"
      and n: "0 < length (threads w)" and all: "\<forall>i < length (threads w). has_returned (threads w ! i)"
  shows "fetchCount key (srv w) = fetchCount key s0 + 1
       \<and> (\<exists>i < length (threads w). threads w ! i = Returned (Inr data))"
proof -
  have free: "\<not> lockHeld (srv w)"
  proof
    assume "lockHeld (srv w)"
    with inv have "length (filter in_critical_section (threads w)) = 1"
      by (simp add: contention_inv_def)
    from count_one [OF this] obtain j where "j < length (threads w)" "in_critical_section (threads w ! j)"
      by blast
    with all show False by (cases "threads w ! j") auto
  qed
  from n all have "list_ex has_returned (threads w)" by (auto simp: list_ex_length)
  with free finv have stored: "cache_get (srv w) key \<noteq> None" by (simp add: fetcher_inv_def)
  with inv_stored [OF inv miss] have once: "fetchCount key (srv w) = fetchCount key s0 + 1" by simp
  from stored finv have "list_ex (holds_fetched data) (threads w)" by (simp add: fetcher_inv_def)
  then obtain j where j: "j < length (threads w)" and h: "holds_fetched data (threads w ! j)"
    by (auto simp: list_ex_length)
  from all j have "has_returned (threads w ! j)" by simp
  with h have "threads w ! j = Returned (Inr data)" by (auto simp: holds_fetched_def)
  with once j show ?thesis by blast
qed

text \<open>
  Claim C1, as the code has it. \<open>n\<close> callers invoke \<open>getDataWithCache\<close> for a key while the
  cache has no unexpired entry for it and the lock is free, the fetch function returns
  \<open>data\<close>, and the entry does not leave the cache again while they run. Then after every
  schedule of their steps, with waits for the lock running out at any time: at most one
  caller is between \<open>waitLock\<close> and \<open>releaseLock\<close>; the fetch function has been invoked at
  most once, and exactly once as soon as any caller has received a payload; every caller
  that has returned received \<open>data\<close>, or \<open>data\<close> as parsed from the cached text, or the
  lock timeout; and where parsing the serialised \<open>data\<close> gives \<open>data\<close> back, all payloads
  received are \<open>data\<close>. The callers do return: no schedule has more than six steps for
  each caller, and as long as a caller has not returned, a caller can take a step. And
  when all callers have returned, the fetch function has been invoked exactly once and
  a caller has received \<open>data\<close> itself.
\<close>

theorem single_fetch_under_contention:
  assumes miss: "cache_get s0 key = None"
      and free: "\<not> lockHeld s0"
      and fetch: "f (sheets s0) = (Inr data, ss1)"
      and quiet: "Evict \<notin> set sched"
      and run: "exec p key f sched (callers n s0) = Some w"
  shows "length (threads w) = n
       \<and> length (filter in_critical_section (threads w)) \<le> 1
       \<and> fetchCount key (srv w) \<le> fetchCount key s0 + 1
       \<and> (\<forall>i < n. \<forall>r. threads w ! i = Returned r \<longrightarrow> is_payload p data r \<or> r = Inl lockTimeout)
       \<and> ((\<exists>i < n. \<exists>d. threads w ! i = Returned (Inr d)) \<longrightarrow>
             fetchCount key (srv w) = fetchCount key s0 + 1)
       \<and> (parse p (stringify p data) = data \<longrightarrow>
             (\<forall>i < n. \<forall>d. threads w ! i = Returned (Inr d) \<longrightarrow> d = data))
       \<and> length sched \<le> 6 * n
       \<and> ((\<exists>i < n. \<not> has_returned (threads w ! i)) \<longrightarrow>
             (\<exists>j < n. \<exists>w1. perform p key f (Step j) w = Some w1))
       \<and> (0 < n \<and> (\<forall>i < n. has_returned (threads w ! i)) \<longrightarrow>
             fetchCount key (srv w) = fetchCount key s0 + 1
           \<and> (\<exists>i < n. threads w ! i = Returned (Inr data)))"
proof -
  have len: "length (threads w) = n"
    using exec_length [OF run] by (simp add: callers_def)
  have both: "contention_inv p key s0 data w \<and> fetcher_inv key data w"
    using both_exec [OF miss fetch inv_callers [OF free] fetcher_callers [OF miss] quiet run] .
  then have inv: "contention_inv p key s0 data w" and finv: "fetcher_inv key data w" by auto
  then have cnt: "length (filter in_critical_section (threads w)) \<le> 1"
    by (simp add: contention_inv_def)
  from inv have ph: "fetchCount key (srv w) = fetchCount key s0 \<and> list_all before_fetch (threads w)
         \<or> fetchCount key (srv w) = fetchCount key s0 + 1 \<and> list_all (before_store data) (threads w)
         \<or> fetchCount key (srv w) = fetchCount key s0 + 1 \<and> list_all (after_store p data) (threads w)"
    by (auto simp: contention_inv_def)
  have ret: "is_payload p data r \<or> r = Inl lockTimeout" if "i < n" "threads w ! i = Returned r" for i r
    using ph that len
    by (auto simp: list_all_length before_fetch_def before_store_def after_store_def
        dest!: spec [of _ i])
  have once: "fetchCount key (srv w) = fetchCount key s0 + 1"
    if "i < n" "threads w ! i = Returned (Inr d)" for i d
    using ph that len
    by (auto simp: list_all_length before_fetch_def before_store_def dest!: spec [of _ i])
  have same: "d = data" if "parse p (stringify p data) = data" "i < n" "threads w ! i = Returned (Inr d)"
    for i d
    using ret [OF that(2,3)] that(1) by (auto simp: is_payload_def)
  have le: "fetchCount key (srv w) \<le> fetchCount key s0 + 1" using ph by auto
  have bound: "length sched \<le> 6 * n"
    using exec_remaining [OF quiet run] by (simp add: remaining_callers)
  have live: "\<exists>j < n. \<exists>w1. perform p key f (Step j) w = Some w1"
    if "i < n" "\<not> has_returned (threads w ! i)" for i
    using step_possible [OF inv, of i f] that len by simp
  have fin: "fetchCount key (srv w) = fetchCount key s0 + 1
           \<and> (\<exists>i < n. threads w ! i = Returned (Inr data))"
    if "0 < n" "\<forall>i < n. has_returned (threads w ! i)"
    using all_returned [OF inv finv miss] that len by simp
  show ?thesis using len cnt le ret once same bound live fin by blast
qed

text \<open>
  An execution on its own takes the steps of the sequential function: from a state with
  the lock free, on a platform where the lock is free at once and nobody else writes,
  at most six steps of the only caller end in the result and the state that
  \<open>getDataWithCache\<close> gives.
\<close>

lemma solo_execution_agrees:
  assumes "\<not> lockHeld s" and "lockFreeAfter p = 0"
      and "otherCacheWrites p = (\<lambda>c. c)" and "otherSheetWrites p = (\<lambda>x. x)"
  shows "\<exists>k \<le> 6. exec p key f (replicate k (Step 0)) (callers 1 s) =
           Some \<lparr>srv = snd (getDataWithCache p key f s),
                 threads = [Returned (fst (getDataWithCache p key f s))]\<rparr>"
proof -
  have r5: "replicate 5 (Step 0) = [Step 0, Step 0, Step 0, Step 0, Step 0]"
    by (simp add: numeral_eq_Suc)
  have r6: "replicate 6 (Step 0) = [Step 0, Step 0, Step 0, Step 0, Step 0, Step 0]"
    by (simp add: numeral_eq_Suc)
  show ?thesis
  proof (cases "cache_get s key")
  case (Some cached)
  then have "exec p key f (replicate 1 (Step 0)) (callers 1 s) =
           Some \<lparr>srv = snd (getDataWithCache p key f s),
                 threads = [Returned (fst (getDataWithCache p key f s))]\<rparr>"
    by (simp add: callers_def getDataWithCache_def)
  then show ?thesis by (intro exI [of _ 1]) simp
next
  case None
  let ?s1 = "s\<lparr>effects := effects s @ [WaitLock 30000], lockHeld := True\<rparr>"
  have w: "waitLock p 30000 s = (Inr (), ?s1)"
    using assms by (simp add: waitLock_def Let_def)
  have none1: "cache_get ?s1 key = None" using None by simp
  obtain r ss where f: "f (sheets s) = (r, ss)" by (cases "f (sheets s)")
  show ?thesis
  proof (cases r)
    case (Inl err)
    have "exec p key f (replicate 5 (Step 0)) (callers 1 s) =
           Some \<lparr>srv = snd (getDataWithCache p key f s),
                 threads = [Returned (fst (getDataWithCache p key f s))]\<rparr>"
      unfolding r5 using None assms(1) f Inl none1
      by (simp add: callers_def getDataWithCache_def getDataWithCache_locked_def w
          Let_def Logger_log_def releaseLock_def)
    then show ?thesis by (intro exI [of _ 5]) simp
  next
    case (Inr data)
    have "exec p key f (replicate 6 (Step 0)) (callers 1 s) =
           Some \<lparr>srv = snd (getDataWithCache p key f s),
                 threads = [Returned (fst (getDataWithCache p key f s))]\<rparr>"
      unfolding r6 using None assms(1) f Inr none1
      by (simp add: callers_def getDataWithCache_def getDataWithCache_locked_def w
          Let_def Logger_log_def releaseLock_def cache_put_def)
    then show ?thesis by (intro exI [of _ 6]) simp
  qed
qed
qed

text \<open>
  Two callers of a cold tasks read, one after the other through the lock: both receive
  the data and the fetch function has run once, in ten steps.
\<close>

theorem single_fetch_under_contention_witness:
  "map_option threads (exec quietPlatform ''Tasks'' fetchReturns oneAfterTheOther (callers 2 coldServer)) =
     Some [Returned (Inr ''DATA''), Returned (Inr ''DATA'')]
   \<and> map_option (\<lambda>w. fetchCount ''Tasks'' (srv w))
        (exec quietPlatform ''Tasks'' fetchReturns oneAfterTheOther (callers 2 coldServer)) = Some 1
   \<and> length oneAfterTheOther \<le> 6 * 2"
proof -
  have miss: "cache_get coldServer ''Tasks'' = None"
    by (simp add: cache_get_def coldServer_def)
  have free: "\<not> lockHeld coldServer"
    by (simp add: coldServer_def)
  have fetch: "fetchReturns (sheets coldServer) = (Inr ''DATA'', sheets coldServer)"
    by (simp add: fetchReturns_def)
  have quiet: "Evict \<notin> set oneAfterTheOther"
    by (simp add: oneAfterTheOther_def)
  obtain w where run: "exec quietPlatform ''Tasks'' fetchReturns oneAfterTheOther (callers 2 coldServer) = Some w"
    and thr: "threads w = [Returned (Inr ''DATA''), Returned (Inr ''DATA'')]"
    by (simp add: oneAfterTheOther_def callers_def coldServer_def fetchReturns_def cache_get_def
        cache_put_def Logger_log_def releaseLock_def quietPlatform_def CACHE_EXPIRATION_SECONDS_def
        numeral_2_eq_2)
  have zero: "fetchCount ''Tasks'' coldServer = 0"
    by (simp add: fetchCount_def coldServer_def)
  have all: "\<forall>i < 2. has_returned (threads w ! i)"
    using thr by (simp add: numeral_2_eq_2 less_Suc_eq)
  from single_fetch_under_contention [OF miss free fetch quiet run] all zero
  have "fetchCount ''Tasks'' (srv w) = 1" "length oneAfterTheOther \<le> 6 * 2"
    by simp_all
  with run thr show ?thesis by simp
qed

text \<open>
  Claim C1 as stated fails in five ways. When the fetch function throws, nothing is
  cached, so the second of two concurrent callers fetches again after the first: two
  invocations, and no caller receives a payload. When the wait of the second caller for
  the lock runs out while the first one holds it, the second receives the lock timeout,
  not the payload the first receives. When another execution of the script holds the
  lock (the script lock is one lock for all keys) for longer than the callers wait, the
  waits of both run out: no invocation, and no payload. And when the entry that the
  first caller stored leaves the cache before the second gets the lock, the second
  fetches again: two invocations. And when the fetched data holds a \<open>Date\<close>, the caller
  that fetched receives the data with the \<open>Date\<close>, and the caller served from the cache
  receives what \<open>JSON.parse\<close> reads from the cached text, with a string in its place.
\<close>

theorem contended_fetch_counterexample:
  "map_option threads (exec quietPlatform ''Tasks'' fetchThrows bothFetch (callers 2 coldServer)) =
     Some [Returned (Inl (newError ''Service unavailable'')), Returned (Inl (newError ''Service unavailable''))]
   \<and> map_option (\<lambda>w. fetchCount ''Tasks'' (srv w))
        (exec quietPlatform ''Tasks'' fetchThrows bothFetch (callers 2 coldServer)) = Some 2
   \<and> map_option threads (exec quietPlatform ''Tasks'' fetchReturns waitRunsOut (callers 2 coldServer)) =
     Some [Returned (Inr ''DATA''), Returned (Inl lockTimeout)]
   \<and> cache_get lockedServer ''Tasks'' = None
   \<and> map_option threads (exec quietPlatform ''Tasks'' fetchReturns bothTimeOut (callers 2 lockedServer)) =
     Some [Returned (Inl lockTimeout), Returned (Inl lockTimeout)]
   \<and> map_option (\<lambda>w. fetchCount ''Tasks'' (srv w))
        (exec quietPlatform ''Tasks'' fetchReturns bothTimeOut (callers 2 lockedServer)) = Some 0
   \<and> map_option threads (exec quietPlatform ''Tasks'' fetchReturns evictedBetween (callers 2 coldServer)) =
     Some [Returned (Inr ''DATA''), Returned (Inr ''DATA'')]
   \<and> map_option (\<lambda>w. fetchCount ''Tasks'' (srv w))
        (exec quietPlatform ''Tasks'' fetchReturns evictedBetween (callers 2 coldServer)) = Some 2
   \<and> map_option threads (exec jsonCells ''Accounts'' fetchDate oneAfterTheOther (callers 2 coldServer)) =
     Some [Returned (Inr (DateValue ''2024-05-01T10:00:00.000Z'')),
           Returned (Inr (StringValue ''2024-05-01T10:00:00.000Z''))]"
  by (simp add: bothFetch_def waitRunsOut_def bothTimeOut_def evictedBetween_def oneAfterTheOther_def
      callers_def coldServer_def lockedServer_def fetchThrows_def fetchReturns_def fetchDate_def
      cache_get_def cache_put_def cache_remove_def Logger_log_def releaseLock_def quietPlatform_def
      jsonCells_def fetchCount_def CACHE_EXPIRATION_SECONDS_def numeral_2_eq_2)

end
